theory Spec2Isabelle
  imports Complex_Main "HOL-Library.Signed_Division"
begin

section \<open>C++ arithmetic, with undefined behaviour as an error value\<close>

text \<open>
  The plotter widget (\<^verbatim>\<open>src/graphics/ui/elements/Plotter.cpp\<close>) computes with
  \<^verbatim>\<open>int\<close> and \<^verbatim>\<open>float\<close>. An \<^verbatim>\<open>int\<close> is modelled as a mathematical
  integer together with the 32-bit range it has to stay in: an operation whose
  result leaves the range, a division by zero, a subscript outside the array and a
  conversion of a \<^verbatim>\<open>float\<close> that no \<^verbatim>\<open>int\<close> represents have no defined result
  in C++, and are the \<open>Inl\<close> branch of the model.
\<close>

datatype ub = SignedOverflow | DivisionByZero | FloatToIntRange | OutOfBounds

definition INT_MIN :: int where
  "INT_MIN = - 2147483648"

definition INT_MAX :: int where
  "INT_MAX = 2147483647"

definition in_int :: "int \<Rightarrow> bool" where
  "in_int x \<longleftrightarrow> INT_MIN \<le> x \<and> x \<le> INT_MAX"

text \<open>Sequencing: the first undefined operation decides the outcome.\<close>

definition and_then :: "ub + 'a \<Rightarrow> ('a \<Rightarrow> ub + 'b) \<Rightarrow> ub + 'b" where
  "and_then m f = (case m of Inl e \<Rightarrow> Inl e | Inr x \<Rightarrow> f x)"

text \<open>\<^verbatim>\<open>a + b\<close> on \<^verbatim>\<open>int\<close>.\<close>

definition int_add :: "int \<Rightarrow> int \<Rightarrow> ub + int" where
  "int_add a b = (if in_int (a + b) then Inr (a + b) else Inl SignedOverflow)"

text \<open>\<^verbatim>\<open>a / b\<close> and \<^verbatim>\<open>a % b\<close> on \<^verbatim>\<open>int\<close>: the quotient is truncated towards
  zero and the remainder has the sign of the dividend.\<close>

definition int_div :: "int \<Rightarrow> int \<Rightarrow> ub + int" where
  "int_div a b =
     (if b = 0 then Inl DivisionByZero
      else if in_int (a sdiv b) then Inr (a sdiv b) else Inl SignedOverflow)"

definition int_rem :: "int \<Rightarrow> int \<Rightarrow> ub + int" where
  "int_rem a b =
     (if b = 0 then Inl DivisionByZero
      else if in_int (a sdiv b) then Inr (a smod b) else Inl SignedOverflow)"

text \<open>\<^verbatim>\<open>a[i]\<close> read and \<^verbatim>\<open>a[i] = v\<close> on an array of \<open>length a\<close> elements.\<close>

definition load :: "int list \<Rightarrow> int \<Rightarrow> ub + int" where
  "load a i = (if 0 \<le> i \<and> i < int (length a) then Inr (a ! nat i) else Inl OutOfBounds)"

definition store :: "int list \<Rightarrow> int \<Rightarrow> int \<Rightarrow> ub + int list" where
  "store a i v = (if 0 \<le> i \<and> i < int (length a) then Inr (a[nat i := v]) else Inl OutOfBounds)"

section \<open>Single-precision floating point\<close>

text \<open>
  A \<^verbatim>\<open>float\<close> is an IEEE 754 binary32 value: a sign with a magnitude that is
  zero or has 24 significant bits and an exponent from \<open>-126\<close> to 127 (below
  \<open>pow2 (-126)\<close> the magnitudes are the multiples of \<open>pow2 (-149)\<close>), an
  infinity with a sign, or a NaN. In \<open>Finite s m\<close> the sign \<open>s\<close> is \<open>True\<close>
  for a negative value and \<open>m\<close> is the magnitude, so that the two zeros differ.
  Every operation computes the exact result and rounds it once, to the nearest
  value with ties to the even significand; expressions are evaluated in
  \<^verbatim>\<open>float\<close>, without extended precision.
\<close>

datatype float = Finite bool real | Infinity bool | NaN

fun bit_length :: "nat \<Rightarrow> nat" where
  "bit_length n = (if n = 0 then 0 else Suc (bit_length (n div 2)))"

definition pow2 :: "int \<Rightarrow> real" where
  "pow2 k = (if 0 \<le> k then 2 ^ nat k else 1 / 2 ^ nat (- k))"

text \<open>
  The exponent of a positive magnitude \<open>m\<close>: the \<open>e\<close> with
  \<open>pow2 e \<le> m < pow2 (e + 1)\<close>.
\<close>

definition exponent :: "real \<Rightarrow> int" where
  "exponent m =
     (if 1 \<le> m then int (bit_length (nat \<lfloor>m\<rfloor>)) - 1
      else - int (bit_length (nat (\<lceil>1 / m\<rceil> - 1))))"

definition round_half_even :: "real \<Rightarrow> int" where
  "round_half_even y =
     (if y - real_of_int \<lfloor>y\<rfloor> < 1 / 2 then \<lfloor>y\<rfloor>
      else if 1 / 2 < y - real_of_int \<lfloor>y\<rfloor> then \<lfloor>y\<rfloor> + 1
      else if even \<lfloor>y\<rfloor> then \<lfloor>y\<rfloor> else \<lfloor>y\<rfloor> + 1)"

text \<open>The distance between neighbouring values at the magnitude \<open>m\<close>.\<close>

definition ulp :: "real \<Rightarrow> real" where
  "ulp m = pow2 (max (- 126) (exponent m) - 23)"

text \<open>Rounding the exact magnitude \<open>m\<close> of a result with the sign \<open>s\<close>.\<close>

definition round_float :: "bool \<Rightarrow> real \<Rightarrow> float" where
  "round_float s m =
     (if m = 0 then Finite s 0
      else if pow2 128 \<le> real_of_int (round_half_even (m / ulp m)) * ulp m then Infinity s
      else Finite s (real_of_int (round_half_even (m / ulp m)) * ulp m))"

text \<open>A literal such as \<^verbatim>\<open>0.2f\<close>, and the conversion of an \<^verbatim>\<open>int\<close>.\<close>

definition to_float :: "real \<Rightarrow> float" where
  "to_float r = round_float (r < 0) \<bar>r\<bar>"

definition of_int_float :: "int \<Rightarrow> float" where
  "of_int_float i = round_float (i < 0) \<bar>real_of_int i\<bar>"

text \<open>The real number a finite value stands for.\<close>

fun is_finite :: "float \<Rightarrow> bool" where
  "is_finite (Finite s m) = True"
| "is_finite f = False"

fun fval :: "float \<Rightarrow> real" where
  "fval (Finite s m) = (if s then - m else m)"
| "fval f = 0"

fun fneg :: "float \<Rightarrow> float" where
  "fneg (Finite s m) = Finite (\<not> s) m"
| "fneg (Infinity s) = Infinity (\<not> s)"
| "fneg NaN = NaN"

fun fmul :: "float \<Rightarrow> float \<Rightarrow> float" where
  "fmul (Finite s m) (Finite t n) = round_float (s \<noteq> t) (m * n)"
| "fmul (Finite s m) (Infinity t) = (if m = 0 then NaN else Infinity (s \<noteq> t))"
| "fmul (Infinity s) (Finite t n) = (if n = 0 then NaN else Infinity (s \<noteq> t))"
| "fmul (Infinity s) (Infinity t) = Infinity (s \<noteq> t)"
| "fmul NaN b = NaN"
| "fmul a NaN = NaN"

fun fdiv :: "float \<Rightarrow> float \<Rightarrow> float" where
  "fdiv (Finite s m) (Finite t n) =
     (if n = 0 then (if m = 0 then NaN else Infinity (s \<noteq> t))
      else round_float (s \<noteq> t) (m / n))"
| "fdiv (Finite s m) (Infinity t) = Finite (s \<noteq> t) 0"
| "fdiv (Infinity s) (Finite t n) = Infinity (s \<noteq> t)"
| "fdiv (Infinity s) (Infinity t) = NaN"
| "fdiv NaN b = NaN"
| "fdiv a NaN = NaN"

text \<open>A sum that is exactly zero is \<open>-0\<close> only when both operands are negative.\<close>

fun fadd :: "float \<Rightarrow> float \<Rightarrow> float" where
  "fadd (Finite s m) (Finite t n) =
     (if fval (Finite s m) + fval (Finite t n) = 0 then Finite (s \<and> t) 0
      else round_float (fval (Finite s m) + fval (Finite t n) < 0)
             \<bar>fval (Finite s m) + fval (Finite t n)\<bar>)"
| "fadd (Finite s m) (Infinity t) = Infinity t"
| "fadd (Infinity s) (Finite t n) = Infinity s"
| "fadd (Infinity s) (Infinity t) = (if s = t then Infinity s else NaN)"
| "fadd NaN b = NaN"
| "fadd a NaN = NaN"

definition fsub :: "float \<Rightarrow> float \<Rightarrow> float" where
  "fsub a b = fadd a (fneg b)"

text \<open>
  \<^verbatim>\<open>static_cast<int>(x)\<close> of a \<^verbatim>\<open>float\<close>: the fractional part is discarded;
  the conversion is undefined for an infinity, a NaN, and a value whose integer
  part no \<^verbatim>\<open>int\<close> holds.
\<close>

definition float_trunc :: "real \<Rightarrow> int" where
  "float_trunc x = (if 0 \<le> x then \<lfloor>x\<rfloor> else \<lceil>x\<rceil>)"

definition castable :: "float \<Rightarrow> bool" where
  "castable f \<longleftrightarrow> is_finite f \<and> in_int (float_trunc (fval f))"

definition float_to_int :: "float \<Rightarrow> ub + int" where
  "float_to_int f = (if castable f then Inr (float_trunc (fval f)) else Inl FloatToIntRange)"

section \<open>The plotter\<close>

text \<open>
  The members of \<^verbatim>\<open>gui::Plotter\<close> that \<^verbatim>\<open>Plotter.cpp\<close> reads and writes.
  \<open>size_y\<close> is \<^verbatim>\<open>size.y\<close>, inherited from the user-interface node.
\<close>

record plotter =
  points :: "int list"
  multiplier :: float
  index :: int
  dmwidth :: int
  dmheight :: int
  labelsInterval :: int
  size_y :: float

text \<open>
  Modelled from the spec: the class declaration with its constructor
  (\<^verbatim>\<open>Plotter.hpp\<close>) is not among the sources. The spec's data model gives a
  buffer of exactly W = \<open>dmwidth\<close> integer magnitudes, an integer cursor into
  it and a scale factor, taken to be a \<^verbatim>\<open>float\<close> as the input of \<^verbatim>\<open>act\<close>
  is; a plotter that has been constructed has a positive width and a cursor that
  is not negative.
\<close>

definition plotter_ok :: "plotter \<Rightarrow> bool" where
  "plotter_ok st \<longleftrightarrow>
     0 < dmwidth st \<and> int (length (points st)) = dmwidth st \<and> 0 \<le> index st"

subsection \<open>\<^verbatim>\<open>Plotter::act\<close>\<close>

text \<open>
  \<^verbatim>\<open>index = index + 1 % dmwidth;\<close> parses as \<^verbatim>\<open>index + (1 % dmwidth)\<close>.
\<close>

definition act :: "plotter \<Rightarrow> float \<Rightarrow> ub + plotter" where
  "act st delta =
     and_then (int_rem 1 (dmwidth st)) (\<lambda>r.
     and_then (int_add (index st) r) (\<lambda>idx.
     and_then (float_to_int (fmul delta (multiplier st))) (\<lambda>val.
     and_then (int_rem idx (dmwidth st)) (\<lambda>slot.
     and_then (store (points st) slot (min val (dmheight st))) (\<lambda>pts.
     Inr (st\<lparr>index := idx, points := pts\<rparr>))))))"

text \<open>A run of sampling ticks, one \<^verbatim>\<open>act\<close> call per element, oldest first.\<close>

fun act_seq :: "plotter \<Rightarrow> float list \<Rightarrow> ub + plotter" where
  "act_seq st [] = Inr st"
| "act_seq st (d # ds) = and_then (act st d) (\<lambda>st'. act_seq st' ds)"

text \<open>
  The magnitude in the words of the spec, for comparison with what \<^verbatim>\<open>act\<close>
  stores: \<open>round(deltaValue * scaleFactor)\<close>, clamped to \<open>[0, H]\<close>.
\<close>

definition spec_magnitude :: "int \<Rightarrow> real \<Rightarrow> real \<Rightarrow> int" where
  "spec_magnitude H scaleFactor deltaValue = max 0 (min H (round (deltaValue * scaleFactor)))"

subsection \<open>\<^verbatim>\<open>Plotter::draw\<close>\<close>

text \<open>
  The calls \<^verbatim>\<open>draw\<close> makes on the batch and on the font, in the order it makes
  them, with the arguments as the call expressions evaluate, before any
  conversion to the parameter types (the batch and the font are declared in
  headers that are not among the sources). Colours are the four components r,
  g, b and alpha. \<open>To_wstring v p\<close> stands for the string
  \<^verbatim>\<open>util::to_wstring(v, p)\<close>, whose formatting is not among the sources.
\<close>

datatype wstring = To_wstring float nat

datatype draw_cmd =
    Texture_null
  | LineWidth int
  | Line float float float float float float float float
  | SetColor float float float float
  | LineRect float float int int
  | FontDraw wstring float float

text \<open>
  The first loop, from the value \<open>i\<close> of its counter on:
  \<^verbatim>\<open>for (int i = index+1; i < index+dmwidth; i++)\<close>.
  \<open>pos\<close> is the result of \<^verbatim>\<open>calcPos()\<close>. In \<^verbatim>\<open>pos.x + i - index\<close> each
  \<^verbatim>\<open>int\<close> is converted to \<^verbatim>\<open>float\<close> and the sum and the difference are
  rounded.
\<close>

function bars :: "plotter \<Rightarrow> float \<times> float \<Rightarrow> int \<Rightarrow> ub + draw_cmd list" where
  "bars st pos i =
     (case int_add (index st) (dmwidth st) of
        Inl e \<Rightarrow> Inl e
      | Inr bound \<Rightarrow>
          if i < bound then
            (case int_rem i (dmwidth st) of
               Inl e \<Rightarrow> Inl e
             | Inr j \<Rightarrow>
                 (case load (points st) j of
                    Inl e \<Rightarrow> Inl e
                  | Inr p \<Rightarrow>
                      (case int_add i 1 of
                         Inl e \<Rightarrow> Inl e
                       | Inr i' \<Rightarrow>
                           (case bars st pos i' of
                              Inl e \<Rightarrow> Inl e
                            | Inr rest \<Rightarrow>
                                Inr (Line (fsub (fadd (fst pos) (of_int_float i))
                                                (of_int_float (index st)))
                                          (fsub (fadd (snd pos) (size_y st)) (of_int_float p))
                                          (fsub (fadd (fst pos) (of_int_float i))
                                                (of_int_float (index st)))
                                          (fadd (snd pos) (size_y st))
                                          (to_float 1) (to_float 1) (to_float 1)
                                          (to_float (1 / 5)) # rest)))))
          else Inr [])"
  by pat_completeness auto
termination
  by (relation "measure (\<lambda>(st, pos, i). nat (index st + dmwidth st - i))")
     (auto simp: int_add_def split: if_splits)

text \<open>The second loop: \<^verbatim>\<open>for (int y = 0; y < dmheight; y += 16)\<close>.\<close>

function grid :: "plotter \<Rightarrow> float \<times> float \<Rightarrow> int \<Rightarrow> ub + draw_cmd list" where
  "grid st pos y =
     (if y < dmheight st then
        (case int_add y 16 of
           Inl e \<Rightarrow> Inl e
         | Inr y' \<Rightarrow>
             (case grid st pos y' of
                Inl e \<Rightarrow> Inl e
              | Inr rest \<Rightarrow>
                  Inr (Line (fsub (fadd (fst pos) (of_int_float (dmwidth st))) (of_int_float 4))
                            (fsub (fadd (snd pos) (of_int_float (dmheight st))) (of_int_float y))
                            (fadd (fadd (fst pos) (of_int_float (dmwidth st))) (of_int_float 4))
                            (fsub (fadd (snd pos) (of_int_float (dmheight st))) (of_int_float y))
                            (to_float 1) (to_float 1) (to_float 1) (to_float (1 / 5)) # rest)))
      else Inr [])"
  by pat_completeness auto
termination
  by (relation "measure (\<lambda>(st, pos, y). nat (dmheight st - y))")
     (auto simp: int_add_def split: if_splits)

text \<open>
  The third loop: \<^verbatim>\<open>for (int y = 0; y < dmheight; y += labelsInterval)\<close>, with
  \<open>current_point\<close> read before it. With a negative interval the counter falls
  until \<^verbatim>\<open>y += labelsInterval\<close> leaves the range of \<^verbatim>\<open>int\<close>. The label is
  a \<^verbatim>\<open>float\<close> quotient: a zero scale factor gives an infinity or a NaN.
\<close>

function labels :: "plotter \<Rightarrow> float \<times> float \<Rightarrow> int \<Rightarrow> int \<Rightarrow> ub + draw_cmd list" where
  "labels st pos current_point y =
     (if y < dmheight st then
        (case int_div current_point 16 of
           Inl e \<Rightarrow> Inl e
         | Inr a \<Rightarrow>
             (case int_div y (labelsInterval st) of
                Inl e \<Rightarrow> Inl e
              | Inr b \<Rightarrow>
                  (case int_add y (labelsInterval st) of
                     Inl e \<Rightarrow> Inl e
                   | Inr y' \<Rightarrow>
                       (case labels st pos current_point y' of
                          Inl e \<Rightarrow> Inl e
                        | Inr rest \<Rightarrow>
                            Inr ((if a = b
                                  then [SetColor (of_int_float 1) (of_int_float 1) (of_int_float 1)
                                          (to_float (1 / 2)),
                                        FontDraw (To_wstring (fdiv (of_int_float current_point)
                                                                  (multiplier st)) 3)
                                          (fadd (fadd (fst pos) (of_int_float (dmwidth st)))
                                                (of_int_float 2))
                                          (fsub (fsub (fadd (snd pos) (of_int_float (dmheight st)))
                                                      (of_int_float y))
                                                (of_int_float (labelsInterval st)))]
                                  else [SetColor (of_int_float 1) (of_int_float 1) (of_int_float 1)
                                          (to_float (1 / 5)),
                                        FontDraw (To_wstring (fdiv (of_int_float y)
                                                                  (multiplier st)) 3)
                                          (fadd (fadd (fst pos) (of_int_float (dmwidth st)))
                                                (of_int_float 2))
                                          (fsub (fsub (fadd (snd pos) (of_int_float (dmheight st)))
                                                      (of_int_float y))
                                                (of_int_float (labelsInterval st)))])
                                 @ rest)))))
      else Inr [])"
  by pat_completeness auto
termination
  by (relation "measure (\<lambda>(st, pos, cp, y).
        if 0 < labelsInterval st then nat (dmheight st - y) else nat (y - INT_MIN))")
     (auto simp: int_add_def int_div_def in_int_def split: if_splits)

text \<open>
  \<^verbatim>\<open>draw\<close> returns the calls it made and the plotter it leaves behind. The
  lookup of the font (\<^verbatim>\<open>assets->getFont("normal")\<close>) is taken to succeed.
\<close>

definition draw :: "plotter \<Rightarrow> float \<times> float \<Rightarrow> ub + draw_cmd list \<times> plotter" where
  "draw st pos =
     and_then (int_add (index st) 1) (\<lambda>i0.
     and_then (bars st pos i0) (\<lambda>bs.
     and_then (grid st pos 0) (\<lambda>gs.
     and_then (int_rem (index st) (dmwidth st)) (\<lambda>k.
     and_then (load (points st) k) (\<lambda>current_point.
     and_then (labels st pos current_point 0) (\<lambda>ls.
     Inr ([Texture_null, LineWidth 1] @ bs
          @ [SetColor (of_int_float 1) (of_int_float 1) (of_int_float 1) (to_float (1 / 5)),
             LineRect (fst pos) (snd pos) (dmwidth st) (dmheight st)]
          @ gs @ ls, st)))))))"

subsection \<open>Reading the calls of \<^verbatim>\<open>draw\<close>\<close>

text \<open>
  The bars of the chart are the line segments \<^verbatim>\<open>draw\<close> issues after its two
  set-up calls and before it sets the colour of the outline.
\<close>

fun is_line :: "draw_cmd \<Rightarrow> bool" where
  "is_line (Line x1 y1 x2 y2 r g b a) = True"
| "is_line c = False"

definition plotted_bars :: "draw_cmd list \<Rightarrow> draw_cmd list" where
  "plotted_bars cmds = takeWhile is_line (drop 2 cmds)"

text \<open>
  The labels drawn in the highlighted style: the font draws with the colour the
  batch holds, and the highlighted style is the alpha \<^verbatim>\<open>0.5f\<close> of
  \<^verbatim>\<open>setColor({1,1,1,0.5f})\<close>. \<open>a\<close> is the alpha the batch holds on entry.
\<close>

fun highlighted :: "float \<Rightarrow> draw_cmd list \<Rightarrow> draw_cmd list" where
  "highlighted a [] = []"
| "highlighted a (SetColor r g b a' # cs) = highlighted a' cs"
| "highlighted a (FontDraw t x y # cs) =
     (if a = to_float (1 / 2) then FontDraw t x y # highlighted a cs else highlighted a cs)"
| "highlighted a (c # cs) = highlighted a cs"

definition drawn_bars :: "plotter \<Rightarrow> float \<times> float \<Rightarrow> ub + draw_cmd list" where
  "drawn_bars st pos = and_then (draw st pos) (\<lambda>r. Inr (plotted_bars (fst r)))"

definition drawn_highlights :: "plotter \<Rightarrow> float \<times> float \<Rightarrow> ub + draw_cmd list" where
  "drawn_highlights st pos =
     and_then (draw st pos) (\<lambda>r. Inr (highlighted (to_float 1) (fst r)))"

text \<open>\<^verbatim>\<open>draw\<close> called \<open>n\<close> times in a row, with nothing between the calls.\<close>

fun draw_times :: "nat \<Rightarrow> plotter \<Rightarrow> float \<times> float \<Rightarrow> ub + draw_cmd list list \<times> plotter" where
  "draw_times 0 st pos = Inr ([], st)"
| "draw_times (Suc n) st pos =
     and_then (draw st pos) (\<lambda>r1.
     and_then (draw_times n (snd r1) pos) (\<lambda>r2.
     Inr (fst r1 # fst r2, snd r2)))"

text \<open>
  The bar of the buffer slot \<open>j\<close> at the column of the counter value \<open>i\<close>:
  the call the first loop makes when \<^verbatim>\<open>i % dmwidth\<close> is \<open>j\<close>.
\<close>

definition bar_line :: "plotter \<Rightarrow> float \<times> float \<Rightarrow> int \<Rightarrow> nat \<Rightarrow> draw_cmd" where
  "bar_line st pos i j =
     Line (fsub (fadd (fst pos) (of_int_float i)) (of_int_float (index st)))
          (fsub (fadd (snd pos) (size_y st)) (of_int_float (points st ! j)))
          (fsub (fadd (fst pos) (of_int_float i)) (of_int_float (index st)))
          (fadd (snd pos) (size_y st))
          (to_float 1) (to_float 1) (to_float 1) (to_float (1 / 5))"

section \<open>The world preview of the level screen\<close>

text \<open>
  \<^verbatim>\<open>LevelScreen::saveWorldPreview\<close>
  (\<^verbatim>\<open>src/frontend/screens/LevelScreen.cpp\<close>) is a \<^verbatim>\<open>try\<close> block of calls
  into the engine and one handler, \<^verbatim>\<open>catch (const std::exception& err)\<close>. What
  a call throws is either derived from \<^verbatim>\<open>std::exception\<close>, with the text of
  \<^verbatim>\<open>what()\<close>, or is not. The calls are not among the sources: each is taken
  to return (\<open>None\<close>) or to throw (\<open>Some\<close>), as the record of collaborators
  says. Writing to the logger is taken not to throw.
\<close>

datatype thrown = Std_exception string | Other_thrown

datatype log_entry = Info string | Error string

record preview_world =
  logged :: "log_entry list"
  preview_png :: bool

datatype outcome = Normal preview_world | Thrown thrown preview_world

record collaborators =
  getPaths :: "thrown option"
  getPlayer :: "thrown option"
  getSettings :: "thrown option"
  worldPreviewSize_get :: "thrown option"
  new_Viewport :: "thrown option"
  new_GfxContext :: "thrown option"
  worldRenderer_draw :: "thrown option"
  toImage :: "thrown option"
  flipY :: "thrown option"
  resolve :: "thrown option"
  imageio_write :: "thrown option"

text \<open>A call made while an exception is in flight is skipped.\<close>

fun call :: "outcome \<Rightarrow> thrown option \<Rightarrow> outcome" where
  "call (Thrown e w) t = Thrown e w"
| "call (Normal w) None = Normal w"
| "call (Normal w) (Some e) = Thrown e w"

fun effect :: "(preview_world \<Rightarrow> preview_world) \<Rightarrow> outcome \<Rightarrow> outcome" where
  "effect f (Thrown e w) = Thrown e w"
| "effect f (Normal w) = Normal (f w)"

fun world_of :: "outcome \<Rightarrow> preview_world" where
  "world_of (Normal w) = w"
| "world_of (Thrown e w) = w"

text \<open>The body of the \<^verbatim>\<open>try\<close> block, in the order of the source.\<close>

definition try_block :: "collaborators \<Rightarrow> preview_world \<Rightarrow> outcome" where
  "try_block c w =
     effect (\<lambda>w'. w'\<lparr>preview_png := True\<rparr>)
       (foldl call (Normal (w\<lparr>logged := logged w @ [Info ''saving world preview'']\<rparr>))
          [getPaths c, getPlayer c, getSettings c, worldPreviewSize_get c, new_Viewport c,
           new_GfxContext c, worldRenderer_draw c, toImage c, flipY c, resolve c,
           imageio_write c])"

definition saveWorldPreview :: "collaborators \<Rightarrow> preview_world \<Rightarrow> outcome" where
  "saveWorldPreview c w =
     (case try_block c w of
        Normal w' \<Rightarrow> Normal w'
      | Thrown (Std_exception what) w' \<Rightarrow> Normal (w'\<lparr>logged := logged w' @ [Error what]\<rparr>)
      | Thrown Other_thrown w' \<Rightarrow> Thrown Other_thrown w')"

section \<open>Worked examples\<close>

text \<open>
  The plotter of the spec's example: W = 5, H = 100, scale factor 1000, with the
  buffer and the cursor as they are after construction.
\<close>

definition demo :: plotter where
  "demo = \<lparr>points = [0, 0, 0, 0, 0], multiplier = to_float 1000, index = 0, dmwidth = 5,
            dmheight = 100, labelsInterval = 16, size_y = to_float 100\<rparr>"

text \<open>
  A plotter three samples wide and 40 pixels high after the samples 20, 30 and
  10, before and after the call \<^verbatim>\<open>act(40)\<close>, and the calls \<^verbatim>\<open>draw\<close> makes
  on it at the position (0, 0).
\<close>

definition narrow_before :: plotter where
  "narrow_before = \<lparr>points = [10, 20, 30], multiplier = to_float 1, index = 3, dmwidth = 3,
                     dmheight = 40, labelsInterval = 16, size_y = to_float 40\<rparr>"

definition narrow :: plotter where
  "narrow = \<lparr>points = [10, 40, 30], multiplier = to_float 1, index = 4, dmwidth = 3,
              dmheight = 40, labelsInterval = 16, size_y = to_float 40\<rparr>"

definition origin :: "float \<times> float" where
  "origin = (to_float 0, to_float 0)"

definition narrow_drawn :: "draw_cmd list" where
  "narrow_drawn =
     [Texture_null, LineWidth 1,
      Line (to_float 1) (to_float 10) (to_float 1) (to_float 40)
        (to_float 1) (to_float 1) (to_float 1) (to_float (1 / 5)),
      Line (to_float 2) (to_float 30) (to_float 2) (to_float 40)
        (to_float 1) (to_float 1) (to_float 1) (to_float (1 / 5)),
      SetColor (to_float 1) (to_float 1) (to_float 1) (to_float (1 / 5)),
      LineRect (to_float 0) (to_float 0) 3 40,
      Line (to_float (- 1)) (to_float 40) (to_float 7) (to_float 40)
        (to_float 1) (to_float 1) (to_float 1) (to_float (1 / 5)),
      Line (to_float (- 1)) (to_float 24) (to_float 7) (to_float 24)
        (to_float 1) (to_float 1) (to_float 1) (to_float (1 / 5)),
      Line (to_float (- 1)) (to_float 8) (to_float 7) (to_float 8)
        (to_float 1) (to_float 1) (to_float 1) (to_float (1 / 5)),
      SetColor (to_float 1) (to_float 1) (to_float 1) (to_float (1 / 5)),
      FontDraw (To_wstring (to_float 0) 3) (to_float 5) (to_float 24),
      SetColor (to_float 1) (to_float 1) (to_float 1) (to_float (1 / 5)),
      FontDraw (To_wstring (to_float 16) 3) (to_float 5) (to_float 8),
      SetColor (to_float 1) (to_float 1) (to_float 1) (to_float (1 / 2)),
      FontDraw (To_wstring (to_float 40) 3) (to_float 5) (to_float (- 8))]"

text \<open>A plotter 32 pixels high whose newest sample is clamped to the height.\<close>

definition saturated :: plotter where
  "saturated = \<lparr>points = [10, 32, 30], multiplier = to_float 1, index = 4, dmwidth = 3,
                 dmheight = 32, labelsInterval = 16, size_y = to_float 32\<rparr>"

text \<open>Collaborators that all return.\<close>

definition quiet :: collaborators where
  "quiet = \<lparr>getPaths = None, getPlayer = None, getSettings = None,
             worldPreviewSize_get = None, new_Viewport = None, new_GfxContext = None,
             worldRenderer_draw = None, toImage = None, flipY = None, resolve = None,
             imageio_write = None\<rparr>"

section \<open>Properties of the arithmetic\<close>

declare bit_length.simps [simp del]

lemmas float_defs = pow2_def exponent_def round_half_even_def ulp_def round_float_def
  to_float_def of_int_float_def fsub_def bit_length.simps

text \<open>
  The rounding at work: \<^verbatim>\<open>0.03f\<close> is a little below 3/100 and its product
  with 1000 rounds to 30; from \<open>2^24\<close> on, odd integers are not values, so
  that at the cursor \<open>2^24 + 1\<close> the columns \<^verbatim>\<open>pos.x + i - index\<close> of the next
  two counter values are 2 and 4; a division by zero gives an infinity.
\<close>

lemma to_float_examples:
  "to_float (3 / 100) = Finite False (16106127 / 536870912)"
  "fmul (to_float (3 / 100)) (to_float 1000) = Finite False 30"
  "of_int_float 16777217 = Finite False 16777216"
  "of_int_float 16777219 = Finite False 16777220"
  "fdiv (of_int_float 40) (Finite False 0) = Infinity False"
  "fsub (fadd (to_float 0) (of_int_float 16777218)) (of_int_float 16777217) = Finite False 2"
  "fsub (fadd (to_float 0) (of_int_float 16777219)) (of_int_float 16777217) = Finite False 4"
  by (simp_all add: float_defs)

lemma alpha_distinct: "to_float (1 / 5) \<noteq> to_float (1 / 2)"
  by (simp add: float_defs)

text \<open>The exponent is the position of the leading bit.\<close>

lemma bit_length_bounds:
  "0 < n \<Longrightarrow> 2 ^ (bit_length n - 1) \<le> n \<and> n < 2 ^ bit_length n"
proof (induction n rule: bit_length.induct)
  case (1 n)
  show ?case
  proof (cases "n div 2 = 0")
    case True
    with "1.prems" have "n = 1" by (simp add: div_eq_0_iff) 
    then show ?thesis by (simp add: bit_length.simps)
  next
    case False
    then have pos: "0 < n div 2" by simp
    from "1.IH" [OF _ pos] "1.prems"
    have ih: "2 ^ (bit_length (n div 2) - 1) \<le> n div 2" "n div 2 < 2 ^ bit_length (n div 2)"
      by simp_all
    have b: "bit_length n = Suc (bit_length (n div 2))"
      using "1.prems" by (subst bit_length.simps) simp
    have b1: "0 < bit_length (n div 2)"
      using pos by (subst bit_length.simps) simp
    have "2 ^ bit_length (n div 2) \<le> 2 * (n div 2)"
    proof -
      have "(2::nat) ^ bit_length (n div 2) = 2 * 2 ^ (bit_length (n div 2) - 1)"
        using b1 by (cases "bit_length (n div 2)") simp_all
      with ih(1) show ?thesis by simp
    qed
    then have "2 ^ (bit_length n - 1) \<le> n" by (simp add: b)
    moreover have "n < 2 ^ bit_length n" using ih(2) by (simp add: b)
    ultimately show ?thesis by simp
  qed
qed

lemma exponent_bounds:
  assumes "0 < m"
  shows "pow2 (exponent m) \<le> m \<and> m < pow2 (exponent m + 1)"
proof (cases "1 \<le> m")
  case True
  let ?n = "nat \<lfloor>m\<rfloor>"
  have n: "0 < ?n" using True by simp
  note b = bit_length_bounds [OF n]
  have bl: "0 < bit_length ?n" using n by (subst bit_length.simps) simp
  have e: "exponent m = int (bit_length ?n) - 1" using True by (simp add: exponent_def)
  have "real (2 ^ (bit_length ?n - 1)) \<le> real ?n"
    using conjunct1 [OF b] by (simp only: of_nat_le_iff)
  also have "real ?n \<le> m" using True by simp
  finally have lo: "2 ^ (bit_length ?n - 1) \<le> m" by simp
  have "Suc ?n \<le> 2 ^ bit_length ?n" by (rule Suc_leI) (rule conjunct2 [OF b])
  then have "real (Suc ?n) \<le> real (2 ^ bit_length ?n)" by (simp only: of_nat_le_iff)
  moreover have "m < real (Suc ?n)" using True by simp linarith
  ultimately have hi: "m < 2 ^ bit_length ?n" by simp
  have "nat (int (bit_length ?n) - 1) = bit_length ?n - 1" by simp
  with lo hi bl show ?thesis by (simp add: e pow2_def)
next
  case False
  let ?t = "1 / m"
  let ?n = "nat (\<lceil>?t\<rceil> - 1)"
  have t: "1 < ?t" using False assms by simp
  then have c: "2 \<le> \<lceil>?t\<rceil>" by linarith
  then have n: "0 < ?n" by simp
  note b = bit_length_bounds [OF n]
  have bl: "0 < bit_length ?n" using n by (subst bit_length.simps) simp
  have e: "exponent m = - int (bit_length ?n)" using False by (simp add: exponent_def)
  have nn: "0 \<le> \<lceil>?t\<rceil> - 1" using c by linarith
  have "real ?n = real_of_int (\<lceil>?t\<rceil> - 1)" by (rule of_nat_nat [OF nn])
  then have rn: "real ?n = real_of_int \<lceil>?t\<rceil> - 1" by (simp only: of_int_diff of_int_1)
  have "Suc ?n \<le> 2 ^ bit_length ?n" by (rule Suc_leI) (rule conjunct2 [OF b])
  then have "real (Suc ?n) \<le> real (2 ^ bit_length ?n)" by (simp only: of_nat_le_iff)
  then have "real_of_int \<lceil>?t\<rceil> \<le> 2 ^ bit_length ?n" using rn by simp
  then have up: "?t \<le> 2 ^ bit_length ?n" by linarith
  have "real (2 ^ (bit_length ?n - 1)) \<le> real ?n"
    using conjunct1 [OF b] by (simp only: of_nat_le_iff)
  then have "2 ^ (bit_length ?n - 1) \<le> real_of_int \<lceil>?t\<rceil> - 1" using rn by simp
  then have dn: "2 ^ (bit_length ?n - 1) < ?t" by linarith
  have lo: "1 / 2 ^ bit_length ?n \<le> m"
    using up assms by (simp add: field_simps)
  have hi: "m < 1 / 2 ^ (bit_length ?n - 1)"
    using dn assms by (simp add: field_simps)
  have k: "nat (int (bit_length ?n) - 1) = bit_length ?n - 1" by simp
  show ?thesis
  proof (cases "bit_length ?n = 1")
    case True
    with lo hi show ?thesis by (simp add: e pow2_def)
  next
    case False
    with bl have "1 < bit_length ?n" by simp
    then have "\<not> 0 \<le> 1 - int (bit_length ?n)" by simp
    with lo hi k show ?thesis by (simp add: e pow2_def)
  qed
qed

lemma smod_nonneg: "0 \<le> a \<Longrightarrow> 0 < b \<Longrightarrow> a smod b = a mod (b::int)"
  by (simp add: signed_modulo_int_def sgn_if)

lemma sdiv_nonneg: "0 \<le> a \<Longrightarrow> 0 < b \<Longrightarrow> a sdiv b = a div (b::int)"
  by (simp add: signed_divide_int_def sgn_if)

lemma and_then_Inr_iff: "and_then m f = Inr y \<longleftrightarrow> (\<exists>x. m = Inr x \<and> f x = Inr y)"
  by (cases m) (simp_all add: and_then_def)

lemma int_add_Inr_iff: "int_add a b = Inr c \<longleftrightarrow> c = a + b \<and> in_int (a + b)"
  by (auto simp: int_add_def)

lemma int_rem_Inr_iff:
  "int_rem a b = Inr c \<longleftrightarrow> b \<noteq> 0 \<and> in_int (a sdiv b) \<and> c = a smod b"
  by (auto simp: int_rem_def)

lemma int_div_Inr_iff:
  "int_div a b = Inr c \<longleftrightarrow> b \<noteq> 0 \<and> in_int (a sdiv b) \<and> c = a sdiv b"
  by (auto simp: int_div_def)

lemma float_to_int_Inr_iff:
  "float_to_int f = Inr v \<longleftrightarrow> castable f \<and> v = float_trunc (fval f)"
  by (auto simp: float_to_int_def)

lemma store_Inr_iff:
  "store a i v = Inr a' \<longleftrightarrow> 0 \<le> i \<and> i < int (length a) \<and> a' = a[nat i := v]"
  by (auto simp: store_def)

lemma load_Inr_iff:
  "load a i = Inr v \<longleftrightarrow> 0 \<le> i \<and> i < int (length a) \<and> v = a ! nat i"
  by (auto simp: load_def)

lemmas Inr_iffs = and_then_Inr_iff int_add_Inr_iff int_rem_Inr_iff int_div_Inr_iff
  float_to_int_Inr_iff store_Inr_iff load_Inr_iff

lemmas ub_defs = and_then_def int_add_def int_rem_def int_div_def in_int_def INT_MIN_def
  INT_MAX_def float_to_int_def castable_def float_trunc_def load_def store_def
  signed_divide_int_def signed_modulo_int_def

lemma sdiv_in_int:
  assumes "0 \<le> a" "a \<le> INT_MAX" "0 < b"
  shows "in_int (a sdiv b)"
proof -
  have "0 \<le> a div b" using assms by (simp add: pos_imp_zdiv_nonneg_iff)
  moreover have "a div b \<le> a" using zdiv_mono2 [of a 1 b] assms by simp
  ultimately show ?thesis using assms
    by (simp add: sdiv_nonneg in_int_def INT_MIN_def INT_MAX_def)
qed

lemma float_trunc_ge: "real_of_int h < x \<Longrightarrow> h \<le> float_trunc x"
  by (auto simp: float_trunc_def le_floor_iff le_ceiling_iff)

lemma float_trunc_negative: "float_trunc x < 0 \<longleftrightarrow> x \<le> - 1"
  by (auto simp: float_trunc_def ceiling_less_iff)

lemma float_trunc_toward_zero:
  "\<bar>real_of_int (float_trunc x)\<bar> \<le> \<bar>x\<bar> \<and> \<bar>x - real_of_int (float_trunc x)\<bar> < 1"
  by (auto simp: float_trunc_def) linarith+

lemma slot_distinct:
  assumes "0 < k" "k < w"
  shows "(i - k) mod w \<noteq> i mod (w::int)"
proof
  assume "(i - k) mod w = i mod w"
  then have "w dvd (i - k) - i" by (simp add: mod_eq_dvd_iff)
  then have "w dvd k" by simp
  then have "w \<le> k" using assms(1) by (rule zdvd_imp_le)
  with assms(2) show False by simp
qed

section \<open>Sampling\<close>

lemma one_smod: "0 < w \<Longrightarrow> (1::int) smod w = (if w = 1 then 0 else 1)"
  by (simp add: smod_nonneg)

lemma act_index: "1 < dmwidth st \<Longrightarrow> act st delta = Inr st' \<Longrightarrow> index st' = index st + 1"
  by (auto simp: act_def Inr_iffs one_smod)

lemma act_frame:
  assumes "act st delta = Inr st'"
  shows "dmwidth st' = dmwidth st" "dmheight st' = dmheight st" "multiplier st' = multiplier st"
    "labelsInterval st' = labelsInterval st" "size_y st' = size_y st"
  using assms by (auto simp: act_def Inr_iffs)

lemma act_seq_frame:
  "act_seq st ds = Inr st' \<Longrightarrow>
     dmwidth st' = dmwidth st \<and> dmheight st' = dmheight st \<and> multiplier st' = multiplier st
     \<and> labelsInterval st' = labelsInterval st \<and> size_y st' = size_y st"
proof (induction ds arbitrary: st)
  case Nil
  then show ?case by simp
next
  case (Cons d ds)
  then obtain s1 where s1: "act st d = Inr s1" "act_seq s1 ds = Inr st'"
    by (auto simp: and_then_Inr_iff)
  from Cons.IH [OF s1(2)] act_frame [OF s1(1)] show ?case by simp
qed

lemma act_seq_index:
  "1 < dmwidth st \<Longrightarrow> act_seq st ds = Inr st' \<Longrightarrow> index st' = index st + int (length ds)"
proof (induction ds arbitrary: st)
  case Nil
  then show ?case by simp
next
  case (Cons d ds)
  then obtain s1 where s1: "act st d = Inr s1" "act_seq s1 ds = Inr st'"
    by (auto simp: and_then_Inr_iff)
  have "1 < dmwidth s1" using Cons.prems(1) act_frame(1) [OF s1(1)] by simp
  from Cons.IH [OF this s1(2)] act_index [OF Cons.prems(1) s1(1)] show ?case by simp
qed

text \<open>What a successful \<^verbatim>\<open>act\<close> call leaves behind, in one equation.\<close>

lemma act_result:
  assumes "plotter_ok st" "act st delta = Inr st'"
  shows "st' = st\<lparr>index := index st + (if dmwidth st = 1 then 0 else 1),
                  points := (points st)[nat ((index st + (if dmwidth st = 1 then 0 else 1)) mod dmwidth st)
                               := min (float_trunc (fval (fmul delta (multiplier st)))) (dmheight st)]\<rparr>"
  using assms
  by (auto simp: act_def Inr_iffs one_smod plotter_ok_def smod_nonneg)

text \<open>
  \<^verbatim>\<open>act\<close> has a defined result as long as the cursor can still be incremented
  and the product can be converted.
\<close>

lemma act_defined:
  assumes "plotter_ok st" "index st < INT_MAX" "castable (fmul delta (multiplier st))"
  shows "\<exists>st'. act st delta = Inr st'"
proof -
  let ?r = "if dmwidth st = 1 then 0 else (1::int)"
  have w: "0 < dmwidth st" "int (length (points st)) = dmwidth st" "0 \<le> index st"
    using assms(1) by (simp_all add: plotter_ok_def)
  have r: "int_rem 1 (dmwidth st) = Inr ?r"
    using w sdiv_in_int [of 1 "dmwidth st"] by (simp add: int_rem_Inr_iff one_smod INT_MAX_def)
  have a: "int_add (index st) ?r = Inr (index st + ?r)"
    using w assms(2) by (simp add: int_add_Inr_iff in_int_def INT_MIN_def INT_MAX_def)
  have d: "in_int ((index st + ?r) sdiv dmwidth st)"
    using w assms(2) by (intro sdiv_in_int) auto
  have s: "int_rem (index st + ?r) (dmwidth st) = Inr ((index st + ?r) mod dmwidth st)"
    using w d by (simp add: int_rem_Inr_iff smod_nonneg)
  show ?thesis
    using w r a s assms(3)
    by (simp add: act_def and_then_def float_to_int_def store_def)
qed

lemma act_undefined_cast:
  "\<not> castable (fmul delta (multiplier st)) \<Longrightarrow> act st delta \<noteq> Inr st'"
  by (auto simp: act_def Inr_iffs)

lemma act_slot:
  assumes "plotter_ok st" "act st delta = Inr st'"
  shows "points st' ! nat (index st' smod dmwidth st')
         = min (float_trunc (fval (fmul delta (multiplier st)))) (dmheight st)"
proof -
  note r = act_result [OF assms]
  have w: "0 < dmwidth st" "int (length (points st)) = dmwidth st" "0 \<le> index st"
    using assms(1) by (simp_all add: plotter_ok_def)
  show ?thesis
    using w by (subst r, subst r, subst r) (simp add: smod_nonneg nat_less_iff)
qed

lemma act_ok: "plotter_ok st \<Longrightarrow> act st delta = Inr st' \<Longrightarrow> plotter_ok st'"
  by (frule (1) act_result) (auto simp: plotter_ok_def)

lemma act_index_le: "plotter_ok st \<Longrightarrow> act st delta = Inr st' \<Longrightarrow> index st' \<le> index st + 1"
  by (frule (1) act_result) auto

lemma act_seq_append:
  "act_seq st (xs @ ys) = and_then (act_seq st xs) (\<lambda>s. act_seq s ys)"
proof (induction xs arbitrary: st)
  case Nil
  show ?case by (simp add: and_then_def)
next
  case (Cons x xs)
  show ?case by (cases "act st x") (simp_all add: and_then_def Cons.IH)
qed

lemma act_seq_ok: "plotter_ok st \<Longrightarrow> act_seq st ds = Inr st' \<Longrightarrow> plotter_ok st'"
proof (induction ds arbitrary: st)
  case Nil
  then show ?case by simp
next
  case (Cons d ds)
  then obtain s1 where s1: "act st d = Inr s1" "act_seq s1 ds = Inr st'"
    by (auto simp: and_then_Inr_iff)
  from Cons.IH [OF act_ok [OF Cons.prems(1) s1(1)] s1(2)] show ?case .
qed

lemma act_seq_defined:
  assumes "plotter_ok st" "index st + int (length ds) \<le> INT_MAX"
    and "\<forall>d\<in>set ds. castable (fmul d (multiplier st))"
  shows "\<exists>st'. act_seq st ds = Inr st'"
  using assms
proof (induction ds arbitrary: st)
  case Nil
  show ?case by simp
next
  case (Cons d ds)
  obtain s1 where s1: "act st d = Inr s1"
    using act_defined [of st d] Cons.prems by auto
  have "plotter_ok s1" by (rule act_ok [OF Cons.prems(1) s1])
  moreover have "index s1 + int (length ds) \<le> INT_MAX"
    using act_index_le [OF Cons.prems(1) s1] Cons.prems(2) by simp
  moreover have "\<forall>d\<in>set ds. castable (fmul d (multiplier s1))"
    using Cons.prems(3) act_frame(3) [OF s1] by simp
  ultimately obtain st' where "act_seq s1 ds = Inr st'"
    using Cons.IH by blast
  with s1 show ?case by (simp add: and_then_def)
qed

lemma act_seq_recent:
  assumes "plotter_ok st" "act_seq st ds = Inr st'" "k < length ds" "int k < dmwidth st"
  shows "points st' ! nat ((index st' - int k) mod dmwidth st)
         = min (float_trunc (fval (fmul (ds ! (length ds - 1 - k)) (multiplier st)))) (dmheight st)"
  using assms(2-4)
proof (induction ds arbitrary: st' k rule: rev_induct)
  case Nil
  then show ?case by simp
next
  case (snoc d xs)
  from snoc.prems(1) obtain s1 where s1: "act_seq st xs = Inr s1" "act s1 d = Inr st'"
    by (auto simp: act_seq_append and_then_Inr_iff)
  have ok1: "plotter_ok s1" by (rule act_seq_ok [OF assms(1) s1(1)])
  have fr: "dmwidth s1 = dmwidth st" "multiplier s1 = multiplier st" "dmheight s1 = dmheight st"
    using act_seq_frame [OF s1(1)] by simp_all
  have w: "0 < dmwidth st" "int (length (points s1)) = dmwidth st" "0 \<le> index s1"
    using ok1 fr by (simp_all add: plotter_ok_def)
  let ?r = "if dmwidth st = 1 then 0 else (1::int)"
  have idx: "index st' = index s1 + ?r"
    and pts: "points st' = (points s1)[nat ((index s1 + ?r) mod dmwidth st) := min (float_trunc (fval (fmul d (multiplier st)))) (dmheight st)]"
    using act_result [OF ok1 s1(2)] fr by simp_all
  have rng: "nat (j mod dmwidth st) < length (points s1)" for j
    using w by (simp add: nat_less_iff)
  show ?case
  proof (cases k)
    case 0
    then show ?thesis using rng by (simp add: idx pts)
  next
    case (Suc k')
    with snoc.prems(3) have wide: "1 < dmwidth st" by simp
    have k': "k' < length xs" "int k' < dmwidth st"
      using Suc snoc.prems(2,3) by simp_all
    have "(index s1 + 1 - int k) mod dmwidth st \<noteq> (index s1 + 1) mod dmwidth st"
      using slot_distinct [of "int k" "dmwidth st" "index s1 + 1"] Suc snoc.prems(3) by simp
    then have ne: "nat ((index s1 + 1) mod dmwidth st) \<noteq> nat ((index s1 + 1 - int k) mod dmwidth st)"
      using w by (simp add: nat_eq_iff)
    have "points st' ! nat ((index st' - int k) mod dmwidth st)
          = points s1 ! nat ((index s1 - int k') mod dmwidth st)"
      using wide ne Suc by (simp add: idx pts)
    also have "\<dots> = min (float_trunc (fval (fmul (xs ! (length xs - 1 - k')) (multiplier st)))) (dmheight st)"
      by (rule snoc.IH [OF s1(1) k'])
    also have "\<dots> = min (float_trunc (fval (fmul ((xs @ [d]) ! (length (xs @ [d]) - 1 - k)) (multiplier st)))) (dmheight st)"
    proof -
      have "length xs - Suc k' < length xs" using k' by simp
      then show ?thesis using Suc by (simp add: nth_append)
    qed
    finally show ?thesis .
  qed
qed

text \<open>
  C4 (the code differs): the claim has the cursor after a call equal to
  \<open>(c + 1) mod W\<close>. At the cursor 4 of a plotter of width 5 the call leaves the
  cursor at 5, not at 0: \<^verbatim>\<open>index + 1 % dmwidth\<close> adds \<^verbatim>\<open>1 % dmwidth\<close>, which
  is 1, and nothing reduces the sum.
\<close>

theorem act_cursor_past_width:
  "act \<lparr>points = [0, 0, 0, 0, 0], multiplier = to_float 1000, index = 4, dmwidth = 5,
         dmheight = 100, labelsInterval = 16, size_y = to_float 100\<rparr> (to_float 0)
   = Inr \<lparr>points = [0, 0, 0, 0, 0], multiplier = to_float 1000, index = 5, dmwidth = 5,
           dmheight = 100, labelsInterval = 16, size_y = to_float 100\<rparr>"
  by (simp add: act_def ub_defs float_defs)

text \<open>
  C6 (as stated, refuted): the claim covers every input whose product exceeds H.
  The conversion to \<^verbatim>\<open>int\<close> comes before \<^verbatim>\<open>std::min\<close>: for the input
  3000000 at scale 1000 the product is 3000000000, which no \<^verbatim>\<open>int\<close> holds, and
  the call has no defined result; nothing clamps it to H = 100.
\<close>

theorem act_huge_product_undefined:
  "fmul (to_float 3000000) (multiplier demo) = Finite False 3000000000
   \<and> real_of_int (dmheight demo) < fval (fmul (to_float 3000000) (multiplier demo))
   \<and> act demo (to_float 3000000) = Inl FloatToIntRange"
  by (simp add: demo_def act_def ub_defs float_defs)

text \<open>
  C6 (as amended): when the \<^verbatim>\<open>float\<close> product \<^verbatim>\<open>delta * multiplier\<close> is finite,
  exceeds H = \<open>dmheight\<close> and has an integer part that an \<^verbatim>\<open>int\<close> holds, the
  call stores exactly H in the slot of the cursor; the cursor must be below
  \<^verbatim>\<open>INT_MAX\<close> for the call to be defined.
\<close>

theorem act_saturates_at_height:
  assumes "plotter_ok st" "index st < INT_MAX" "castable (fmul delta (multiplier st))"
    and "real_of_int (dmheight st) < fval (fmul delta (multiplier st))"
  shows "\<exists>st'. act st delta = Inr st'
           \<and> points st' ! nat (index st' smod dmwidth st') = dmheight st"
proof -
  obtain st' where st': "act st delta = Inr st'"
    using act_defined [OF assms(1-3)] by blast
  have "points st' ! nat (index st' smod dmwidth st') = dmheight st"
    using act_slot [OF assms(1) st'] float_trunc_ge [OF assms(4)] by simp
  with st' show ?thesis by blast
qed

theorem act_saturates_at_height_witness:
  "plotter_ok demo \<and> index demo < INT_MAX \<and> castable (fmul (to_float (1 / 5)) (multiplier demo))
   \<and> real_of_int (dmheight demo) < fval (fmul (to_float (1 / 5)) (multiplier demo))
   \<and> (\<exists>st'. act demo (to_float (1 / 5)) = Inr st'
         \<and> points st' ! nat (index st' smod dmwidth st') = dmheight demo)"
proof -
  have h: "plotter_ok demo" "index demo < INT_MAX"
    "castable (fmul (to_float (1 / 5)) (multiplier demo))"
    "real_of_int (dmheight demo) < fval (fmul (to_float (1 / 5)) (multiplier demo))"
    by (simp_all add: demo_def plotter_ok_def ub_defs float_defs)
  from act_saturates_at_height [OF h] h show ?thesis by blast
qed

text \<open>
  C10 (as stated, refuted): the claim has every call add 1 to the cursor, which
  would grow without bound. The cursor is an \<^verbatim>\<open>int\<close>: at \<^verbatim>\<open>INT_MAX\<close> the
  sum \<^verbatim>\<open>index + 1\<close> has no defined value and the call no defined result.
\<close>

theorem act_cursor_overflows:
  "1 < dmwidth (demo\<lparr>index := 2147483647\<rparr>)
   \<and> act (demo\<lparr>index := 2147483647\<rparr>) (to_float 0) = Inl SignedOverflow"
  by (simp add: demo_def act_def ub_defs float_defs)

text \<open>
  C10 (as amended): in a plotter wider than one sample, every call made while the
  cursor is below \<^verbatim>\<open>INT_MAX\<close>, with a product that can be converted, adds
  exactly 1 to the stored cursor: a run of n calls that keeps the cursor within
  \<^verbatim>\<open>INT_MAX\<close> is defined and ends with the cursor at its start plus n. The
  cursor is never reduced modulo \<open>dmwidth\<close> (only the subscripts are), and
  \<^verbatim>\<open>INT_MAX\<close> bounds it.
\<close>

theorem act_cursor_counts_calls:
  assumes "plotter_ok st" "1 < dmwidth st" "index st + int (length ds) \<le> INT_MAX"
    and "\<forall>d\<in>set ds. castable (fmul d (multiplier st))"
  shows "\<exists>st'. act_seq st ds = Inr st' \<and> index st' = index st + int (length ds)
           \<and> index st' \<le> INT_MAX"
proof -
  obtain st' where st': "act_seq st ds = Inr st'"
    using act_seq_defined [OF assms(1,3,4)] by blast
  from act_seq_index [OF assms(2) st'] assms(3) st' show ?thesis by simp
qed

theorem act_cursor_counts_calls_witness:
  "plotter_ok demo \<and> 1 < dmwidth demo
   \<and> index demo + int (length [to_float 0, to_float 0, to_float 0, to_float 0, to_float 0,
                                 to_float 0, to_float 0]) \<le> INT_MAX
   \<and> act_seq demo [to_float 0, to_float 0, to_float 0, to_float 0, to_float 0, to_float 0,
                     to_float 0] = Inr (demo\<lparr>index := 7\<rparr>)
   \<and> (\<exists>st'. act_seq demo [to_float 0, to_float 0, to_float 0, to_float 0, to_float 0,
                             to_float 0, to_float 0] = Inr st'
         \<and> index st' = index demo + int (length [to_float 0, to_float 0, to_float 0, to_float 0,
                                                   to_float 0, to_float 0, to_float 0])
         \<and> index st' \<le> INT_MAX)"
proof -
  have h: "plotter_ok demo" "1 < dmwidth demo"
    "index demo + int (length [to_float 0, to_float 0, to_float 0, to_float 0, to_float 0,
                                 to_float 0, to_float 0]) \<le> INT_MAX"
    "\<forall>d\<in>set [to_float 0, to_float 0, to_float 0, to_float 0, to_float 0, to_float 0,
               to_float 0]. castable (fmul d (multiplier demo))"
    by (simp_all add: demo_def plotter_ok_def ub_defs float_defs)
  have e: "act_seq demo [to_float 0, to_float 0, to_float 0, to_float 0, to_float 0, to_float 0,
                     to_float 0] = Inr (demo\<lparr>index := 7\<rparr>)"
    by (simp add: demo_def act_def ub_defs float_defs)
  from act_cursor_counts_calls [OF h] h(1-3) e show ?thesis by blast
qed

text \<open>
  C1 (as stated, refuted): the claim has the buffer hold the clamped magnitudes,
  which the spec defines as \<open>round(deltaValue * scaleFactor)\<close> clamped to
  \<open>[0, H]\<close>. After the five inputs 3/4096, -1/256, 0, 0, 0 at scale 1000 the
  slot of the first input holds 0 where the spec's magnitude is 1, and the slot
  of the second holds -3 where the spec's magnitude is 0.
\<close>

theorem act_seq_not_spec_magnitudes:
  "act_seq demo [to_float (3 / 4096), to_float (- 1 / 256), to_float 0, to_float 0, to_float 0]
     = Inr (demo\<lparr>index := 5, points := [0, 0, - 3, 0, 0]\<rparr>)
   \<and> points (demo\<lparr>index := 5, points := [0, 0, - 3, 0, 0]\<rparr>) ! 1 = 0
   \<and> spec_magnitude (dmheight demo) 1000 (3 / 4096) = 1
   \<and> points (demo\<lparr>index := 5, points := [0, 0, - 3, 0, 0]\<rparr>) ! 2 = - 3
   \<and> spec_magnitude (dmheight demo) 1000 (- 1 / 256) = 0"
  by (simp add: demo_def act_def ub_defs float_defs spec_magnitude_def round_def)

text \<open>
  C1 (as amended): a run of N \<ge> W calls on a constructed plotter that keeps the
  cursor within \<^verbatim>\<open>INT_MAX\<close>, with products that can be converted, is defined;
  after it the buffer still has W slots, and for every k < W the slot
  \<open>(index - k) % dmwidth\<close>, counted back from the cursor the run ends with,
  holds what \<^verbatim>\<open>act\<close> stores for the k-th most recent input: the \<^verbatim>\<open>float\<close>
  product \<^verbatim>\<open>delta * multiplier\<close> with its fractional part discarded, bounded
  above by H (not rounded to nearest, not bounded below). The W slots are the
  whole buffer.
\<close>

theorem act_seq_holds_last_samples:
  assumes "plotter_ok st" "index st + int (length ds) \<le> INT_MAX"
    and "\<forall>d\<in>set ds. castable (fmul d (multiplier st))"
    and "dmwidth st \<le> int (length ds)"
  shows "\<exists>st'. act_seq st ds = Inr st' \<and> int (length (points st')) = dmwidth st
           \<and> (\<forall>k<nat (dmwidth st).
                 points st' ! nat ((index st' - int k) smod dmwidth st)
                 = min (float_trunc (fval (fmul (ds ! (length ds - 1 - k)) (multiplier st))))
                       (dmheight st))"
proof -
  obtain st' where st': "act_seq st ds = Inr st'"
    using act_seq_defined [OF assms(1-3)] by blast
  have ok: "plotter_ok st'" by (rule act_seq_ok [OF assms(1) st'])
  have fr: "dmwidth st' = dmwidth st" using act_seq_frame [OF st'] by simp
  have len: "int (length (points st')) = dmwidth st"
    using ok fr by (simp add: plotter_ok_def)
  have "points st' ! nat ((index st' - int k) smod dmwidth st)
        = min (float_trunc (fval (fmul (ds ! (length ds - 1 - k)) (multiplier st)))) (dmheight st)"
    if k: "k < nat (dmwidth st)" for k
  proof -
    have kl: "k < length ds" "int k < dmwidth st" using k assms(4) by simp_all
    have w: "0 < dmwidth st" using assms(1) by (simp add: plotter_ok_def)
    have "int k \<le> index st'"
    proof (cases "dmwidth st = 1")
      case True
      then show ?thesis using kl ok by (simp add: plotter_ok_def)
    next
      case False
      then have "index st' = index st + int (length ds)"
        using w act_seq_index [OF _ st'] by simp
      then show ?thesis using kl assms(1) by (simp add: plotter_ok_def)
    qed
    then have "(index st' - int k) smod dmwidth st = (index st' - int k) mod dmwidth st"
      using w by (simp add: smod_nonneg)
    then show ?thesis using act_seq_recent [OF assms(1) st' kl] by simp
  qed
  with st' len show ?thesis by blast
qed

theorem act_seq_holds_last_samples_witness:
  "plotter_ok demo
   \<and> index demo + int (length [to_float (1 / 100), to_float (1 / 20), to_float (1 / 5),
                                 to_float (9 / 100), to_float (3 / 100)]) \<le> INT_MAX
   \<and> list_all castable
         [fmul (to_float (1 / 100)) (multiplier demo), fmul (to_float (1 / 20)) (multiplier demo),
          fmul (to_float (1 / 5)) (multiplier demo), fmul (to_float (9 / 100)) (multiplier demo),
          fmul (to_float (3 / 100)) (multiplier demo)]
   \<and> dmwidth demo \<le> int (length [to_float (1 / 100), to_float (1 / 20), to_float (1 / 5),
                                    to_float (9 / 100), to_float (3 / 100)])
   \<and> act_seq demo [to_float (1 / 100), to_float (1 / 20), to_float (1 / 5),
                     to_float (9 / 100), to_float (3 / 100)]
       = Inr (demo\<lparr>index := 5, points := [30, 10, 50, 100, 90]\<rparr>)
   \<and> (\<exists>st'. act_seq demo [to_float (1 / 100), to_float (1 / 20), to_float (1 / 5),
                             to_float (9 / 100), to_float (3 / 100)] = Inr st'
         \<and> int (length (points st')) = dmwidth demo
         \<and> (\<forall>k<nat (dmwidth demo).
                 points st' ! nat ((index st' - int k) smod dmwidth demo)
                 = min (float_trunc (fval (fmul
                          ([to_float (1 / 100), to_float (1 / 20), to_float (1 / 5),
                            to_float (9 / 100), to_float (3 / 100)]
                             ! (length [to_float (1 / 100), to_float (1 / 20), to_float (1 / 5),
                                        to_float (9 / 100), to_float (3 / 100)] - 1 - k))
                          (multiplier demo))))
                       (dmheight demo)))"
proof -
  have h: "plotter_ok demo"
    "index demo + int (length [to_float (1 / 100), to_float (1 / 20), to_float (1 / 5),
                                 to_float (9 / 100), to_float (3 / 100)]) \<le> INT_MAX"
    "\<forall>d\<in>set [to_float (1 / 100), to_float (1 / 20), to_float (1 / 5),
               to_float (9 / 100), to_float (3 / 100)]. castable (fmul d (multiplier demo))"
    "dmwidth demo \<le> int (length [to_float (1 / 100), to_float (1 / 20), to_float (1 / 5),
                                    to_float (9 / 100), to_float (3 / 100)])"
    by (simp_all add: demo_def plotter_ok_def ub_defs float_defs)
  have e: "act_seq demo [to_float (1 / 100), to_float (1 / 20), to_float (1 / 5),
                     to_float (9 / 100), to_float (3 / 100)]
           = Inr (demo\<lparr>index := 5, points := [30, 10, 50, 100, 90]\<rparr>)"
    by (simp add: demo_def act_def ub_defs float_defs)
  have l: "list_all castable
         [fmul (to_float (1 / 100)) (multiplier demo), fmul (to_float (1 / 20)) (multiplier demo),
          fmul (to_float (1 / 5)) (multiplier demo), fmul (to_float (9 / 100)) (multiplier demo),
          fmul (to_float (3 / 100)) (multiplier demo)]"
    using h(3) by simp
  from act_seq_holds_last_samples [OF h] h(1,2,4) l e show ?thesis by blast
qed

text \<open>
  C3 (as stated, refuted): the claim has every stored magnitude in \<open>[0, H]\<close>.
  The input \<open>-1/256\<close> at scale 1000 is the product \<open>-3.90625\<close>; the call
  stores \<open>-3\<close>.
\<close>

theorem act_stores_negative_magnitude:
  "act demo (to_float (- 1 / 256)) = Inr (demo\<lparr>index := 1, points := [0, - 3, 0, 0, 0]\<rparr>)
   \<and> points (demo\<lparr>index := 1, points := [0, - 3, 0, 0, 0]\<rparr>) ! 1 < 0"
  by (simp add: demo_def act_def ub_defs float_defs)

text \<open>
  C3 (as amended): \<^verbatim>\<open>std::min(value, dmheight)\<close> bounds a magnitude from above
  only. A call made with the cursor below \<^verbatim>\<open>INT_MAX\<close> and a product that can
  be converted is defined; if every stored magnitude is at most H before it,
  every one is after it; and the magnitude it writes at the cursor slot is
  negative exactly when the \<^verbatim>\<open>float\<close> product \<^verbatim>\<open>delta * multiplier\<close> is at
  most \<open>-1\<close> or H is negative.
\<close>

theorem act_keeps_upper_bound:
  assumes "plotter_ok st" "index st < INT_MAX" "castable (fmul delta (multiplier st))"
    and "\<forall>p\<in>set (points st). p \<le> dmheight st"
  shows "\<exists>st'. act st delta = Inr st'
           \<and> (\<forall>p\<in>set (points st'). p \<le> dmheight st')
           \<and> (points st' ! nat (index st' smod dmwidth st') < 0
                \<longleftrightarrow> fval (fmul delta (multiplier st)) \<le> - 1 \<or> dmheight st < 0)"
proof -
  obtain st' where st': "act st delta = Inr st'"
    using act_defined [OF assms(1-3)] by blast
  note r = act_result [OF assms(1) st']
  let ?m = "min (float_trunc (fval (fmul delta (multiplier st)))) (dmheight st)"
  have h: "dmheight st' = dmheight st" by (rule act_frame(2) [OF st'])
  have sub: "set (points st') \<subseteq> insert ?m (set (points st))"
    by (subst r) (simp add: set_update_subset_insert)
  have "\<forall>p\<in>set (points st'). p \<le> dmheight st'"
    using sub assms(4) h by auto
  moreover have "points st' ! nat (index st' smod dmwidth st') < 0
                \<longleftrightarrow> fval (fmul delta (multiplier st)) \<le> - 1 \<or> dmheight st < 0"
    using act_slot [OF assms(1) st'] float_trunc_negative [of "fval (fmul delta (multiplier st))"]
    by (simp add: min_less_iff_disj)
  ultimately show ?thesis using st' by blast
qed

theorem act_keeps_upper_bound_witness:
  "plotter_ok demo \<and> index demo < INT_MAX
   \<and> castable (fmul (to_float (- 1 / 256)) (multiplier demo))
   \<and> list_all (\<lambda>p. p \<le> dmheight demo) (points demo)
   \<and> fval (fmul (to_float (- 1 / 256)) (multiplier demo)) \<le> - 1
   \<and> (\<exists>st'. act demo (to_float (- 1 / 256)) = Inr st'
           \<and> (\<forall>p\<in>set (points st'). p \<le> dmheight st')
           \<and> points st' ! nat (index st' smod dmwidth st') < 0)"
proof -
  have h: "plotter_ok demo" "index demo < INT_MAX"
    "castable (fmul (to_float (- 1 / 256)) (multiplier demo))"
    "\<forall>p\<in>set (points demo). p \<le> dmheight demo"
    by (simp_all add: demo_def plotter_ok_def ub_defs float_defs)
  have g: "fval (fmul (to_float (- 1 / 256)) (multiplier demo)) \<le> - 1"
    by (simp add: demo_def float_defs)
  have l: "list_all (\<lambda>p. p \<le> dmheight demo) (points demo)"
    by (simp add: demo_def)
  from act_keeps_upper_bound [OF h] h(1-3) g l show ?thesis by blast
qed

text \<open>
  C5 (as stated, refuted): the claim has the magnitude rounded to the nearest
  integer. The input \<open>3/4096\<close> at scale 1000 is the product \<open>0.732421875\<close>,
  which rounds to 1; the call stores 0.
\<close>

theorem act_truncates_not_rounds:
  "act demo (to_float (3 / 4096)) = Inr (demo\<lparr>index := 1\<rparr>)
   \<and> points (demo\<lparr>index := 1\<rparr>) ! nat (index (demo\<lparr>index := 1\<rparr>) smod dmwidth (demo\<lparr>index := 1\<rparr>)) = 0
   \<and> fval (fmul (to_float (3 / 4096)) (multiplier demo)) = 3000 / 4096
   \<and> min (round (3000 / 4096 :: real)) (dmheight demo) = 1"
  by (simp add: demo_def act_def ub_defs float_defs round_def)

text \<open>
  C5 (as amended): for every input whose \<^verbatim>\<open>float\<close> product
  \<^verbatim>\<open>delta * multiplier\<close> is finite with an integer part that an \<^verbatim>\<open>int\<close>
  holds, a call made with the cursor below \<^verbatim>\<open>INT_MAX\<close> stores, in the slot of
  the cursor, that product with its fractional part discarded (rounded towards
  zero, never away from it), bounded above by H.
\<close>

theorem act_stores_truncated_product:
  assumes "plotter_ok st" "index st < INT_MAX" "castable (fmul delta (multiplier st))"
  shows "\<exists>st'. act st delta = Inr st'
           \<and> points st' ! nat (index st' smod dmwidth st')
               = min (float_trunc (fval (fmul delta (multiplier st)))) (dmheight st)
           \<and> \<bar>real_of_int (float_trunc (fval (fmul delta (multiplier st))))\<bar>
               \<le> \<bar>fval (fmul delta (multiplier st))\<bar>
           \<and> \<bar>fval (fmul delta (multiplier st))
                - real_of_int (float_trunc (fval (fmul delta (multiplier st))))\<bar> < 1"
proof -
  obtain st' where st': "act st delta = Inr st'"
    using act_defined [OF assms] by blast
  from act_slot [OF assms(1) st'] float_trunc_toward_zero [of "fval (fmul delta (multiplier st))"] st'
  show ?thesis by auto
qed

theorem act_stores_truncated_product_witness:
  "plotter_ok demo \<and> index demo < INT_MAX
   \<and> castable (fmul (to_float (3 / 4096)) (multiplier demo))
   \<and> (\<exists>st'. act demo (to_float (3 / 4096)) = Inr st'
           \<and> points st' ! nat (index st' smod dmwidth st')
               = min (float_trunc (fval (fmul (to_float (3 / 4096)) (multiplier demo))))
                     (dmheight demo)
           \<and> \<bar>real_of_int (float_trunc (fval (fmul (to_float (3 / 4096)) (multiplier demo))))\<bar>
               \<le> \<bar>fval (fmul (to_float (3 / 4096)) (multiplier demo))\<bar>
           \<and> \<bar>fval (fmul (to_float (3 / 4096)) (multiplier demo))
                - real_of_int (float_trunc (fval (fmul (to_float (3 / 4096)) (multiplier demo))))\<bar>
               < 1)"
proof -
  have h: "plotter_ok demo" "index demo < INT_MAX"
    "castable (fmul (to_float (3 / 4096)) (multiplier demo))"
    by (simp_all add: demo_def plotter_ok_def ub_defs float_defs)
  from act_stores_truncated_product [OF h] h show ?thesis by blast
qed

section \<open>Rendering\<close>

declare bars.simps [simp del] grid.simps [simp del] labels.simps [simp del]

lemma bars_result:
  assumes "plotter_ok st"
  shows "0 \<le> i \<Longrightarrow> bars st pos i = Inr bs
         \<Longrightarrow> bs = map (\<lambda>i. bar_line st pos i (nat (i smod dmwidth st)))
                      [i .. index st + dmwidth st - 1]"
proof (induction "nat (index st + dmwidth st - i)" arbitrary: i bs)
  case 0
  then show ?case
    by (subst (asm) bars.simps) (auto simp: int_add_def split: if_splits sum.splits)
next
  case (Suc n)
  have w: "0 < dmwidth st" using assms by (simp add: plotter_ok_def)
  from Suc.hyps(2) have lt: "i < index st + dmwidth st" by simp
  from Suc.prems(2) obtain rest where
    rest: "bars st pos (i + 1) = Inr rest" and
    bs: "bs = bar_line st pos i (nat (i smod dmwidth st)) # rest"
    using lt w Suc.prems(1)
    by (subst (asm) bars.simps)
       (auto simp: Inr_iffs bar_line_def split: if_splits sum.splits)
  have "rest = map (\<lambda>i. bar_line st pos i (nat (i smod dmwidth st)))
                 [i + 1 .. index st + dmwidth st - 1]"
    using Suc.hyps(2) Suc.prems(1) by (intro Suc.hyps(1) rest) auto
  then show ?case using bs lt by (simp add: upto_rec1 [of i])
qed

lemma grid_lines: "grid st pos y = Inr gs \<Longrightarrow> list_all is_line gs"
proof (induction "nat (dmheight st - y)" arbitrary: y gs rule: less_induct)
  case less
  show ?case
  proof (cases "y < dmheight st")
    case False
    with less.prems show ?thesis by (subst (asm) grid.simps) simp
  next
    case True
    with less.prems obtain l rest where
      rest: "grid st pos (y + 16) = Inr rest" and gs: "gs = l # rest" "is_line l"
      by (subst (asm) grid.simps) (auto simp: Inr_iffs split: if_splits sum.splits)
    have "list_all is_line rest"
      using True by (intro less.hyps [OF _ rest]) simp
    then show ?thesis using gs by simp
  qed
qed

lemma highlighted_lines: "list_all is_line cs \<Longrightarrow> highlighted a (cs @ ds) = highlighted a ds"
proof (induction cs)
  case Nil
  show ?case by simp
next
  case (Cons c cs)
  then show ?case by (cases c) simp_all
qed

lemma takeWhile_lines:
  "list_all is_line cs \<Longrightarrow> \<not> is_line d \<Longrightarrow> takeWhile is_line (cs @ d # ds) = cs"
  by (induction cs) simp_all

lemma bar_lines: "list_all is_line (map (\<lambda>i. bar_line st pos i (f i)) is)"
  by (induction "is") (simp_all add: bar_line_def)

lemma draw_parts:
  assumes "draw st pos = Inr (cmds, st')"
  shows "st' = st \<and> (\<exists>bs gs ls.
    bars st pos (index st + 1) = Inr bs \<and> grid st pos 0 = Inr gs
    \<and> labels st pos (points st ! nat (index st smod dmwidth st)) 0 = Inr ls
    \<and> cmds = [Texture_null, LineWidth 1] @ bs
            @ [SetColor (of_int_float 1) (of_int_float 1) (of_int_float 1) (to_float (1 / 5)),
               LineRect (fst pos) (snd pos) (dmwidth st) (dmheight st)]
            @ gs @ ls)"
  using assms by (auto simp: draw_def Inr_iffs)

lemma draw_bars:
  assumes "plotter_ok st" "draw st pos = Inr (cmds, st')"
  shows "plotted_bars cmds
         = map (\<lambda>i. bar_line st pos i (nat (i smod dmwidth st)))
             [index st + 1 .. index st + dmwidth st - 1]"
proof -
  from draw_parts [OF assms(2)] obtain bs gs ls where
    bs: "bars st pos (index st + 1) = Inr bs" and
    cmds: "cmds = [Texture_null, LineWidth 1] @ bs
            @ [SetColor (of_int_float 1) (of_int_float 1) (of_int_float 1) (to_float (1 / 5)),
               LineRect (fst pos) (snd pos) (dmwidth st) (dmheight st)]
            @ gs @ ls"
    by blast
  have "0 \<le> index st + 1" using assms(1) by (simp add: plotter_ok_def)
  from bars_result [OF assms(1) this bs]
  have eq: "bs = map (\<lambda>i. bar_line st pos i (nat (i smod dmwidth st)))
                   [index st + 1 .. index st + dmwidth st - 1]" .
  have "list_all is_line bs" unfolding eq by (rule bar_lines)
  then show ?thesis using eq by (simp add: plotted_bars_def cmds takeWhile_lines)
qed

lemma draw_keeps: "draw st pos = Inr (cmds, st') \<Longrightarrow> st' = st"
  by (simp add: draw_parts)

lemma draw_times_same:
  assumes "draw st pos = Inr (cmds, st')"
  shows "draw_times n st pos = Inr (replicate n cmds, st)"
proof (induction n)
  case 0
  show ?case by simp
next
  case (Suc n)
  have "st' = st" by (rule draw_keeps [OF assms])
  with assms Suc show ?case by (simp add: and_then_def)
qed

lemma highlighted_skip2: "highlighted a (Texture_null # LineWidth w # cs) = highlighted a cs"
  by simp

lemma labels_highlight:
  assumes li: "0 < labelsInterval st"
  shows "0 \<le> m \<Longrightarrow> labels st pos cp (labelsInterval st * m) = Inr ls \<Longrightarrow>
     highlighted a ls =
       (if m \<le> cp sdiv 16 \<and> labelsInterval st * (cp sdiv 16) < dmheight st
        then [FontDraw (To_wstring (fdiv (of_int_float cp) (multiplier st)) 3)
                (fadd (fadd (fst pos) (of_int_float (dmwidth st))) (of_int_float 2))
                (fsub (fsub (fadd (snd pos) (of_int_float (dmheight st)))
                            (of_int_float (labelsInterval st * (cp sdiv 16))))
                      (of_int_float (labelsInterval st)))]
        else [])"
proof (induction "nat (dmheight st - labelsInterval st * m)" arbitrary: m ls a rule: less_induct)
  case less
  let ?li = "labelsInterval st" and ?k = "cp sdiv 16"
  let ?hl = "FontDraw (To_wstring (fdiv (of_int_float cp) (multiplier st)) 3)
                (fadd (fadd (fst pos) (of_int_float (dmwidth st))) (of_int_float 2))
                (fsub (fsub (fadd (snd pos) (of_int_float (dmheight st)))
                            (of_int_float (?li * ?k)))
                      (of_int_float ?li))"
  show ?case
  proof (cases "?li * m < dmheight st")
    case False
    have "\<not> (m \<le> ?k \<and> ?li * ?k < dmheight st)"
    proof
      assume a: "m \<le> ?k \<and> ?li * ?k < dmheight st"
      then have "?li * m \<le> ?li * ?k" using li by (simp add: mult_left_mono)
      with a False show False by simp
    qed
    moreover from less.prems(2) False have "ls = []"
      by (subst (asm) labels.simps) simp
    ultimately show ?thesis by simp
  next
    case True
    have q: "(?li * m) sdiv ?li = m"
      using li less.prems(1) by (simp add: sdiv_nonneg)
    from less.prems(2) True obtain rest where
      rest: "labels st pos cp (?li * (m + 1)) = Inr rest" and
      ls: "ls = (if ?k = m
                 then [SetColor (of_int_float 1) (of_int_float 1) (of_int_float 1) (to_float (1 / 2)),
                       FontDraw (To_wstring (fdiv (of_int_float cp) (multiplier st)) 3)
                         (fadd (fadd (fst pos) (of_int_float (dmwidth st))) (of_int_float 2))
                         (fsub (fsub (fadd (snd pos) (of_int_float (dmheight st)))
                                     (of_int_float (?li * m)))
                               (of_int_float ?li))]
                 else [SetColor (of_int_float 1) (of_int_float 1) (of_int_float 1) (to_float (1 / 5)),
                       FontDraw (To_wstring (fdiv (of_int_float (?li * m)) (multiplier st)) 3)
                         (fadd (fadd (fst pos) (of_int_float (dmwidth st))) (of_int_float 2))
                         (fsub (fsub (fadd (snd pos) (of_int_float (dmheight st)))
                                     (of_int_float (?li * m)))
                               (of_int_float ?li))]) @ rest"
      by (subst (asm) labels.simps)
         (auto simp: Inr_iffs q distrib_left split: if_splits sum.splits)
    have dec: "nat (dmheight st - ?li * (m + 1)) < nat (dmheight st - ?li * m)"
      using True li by (simp add: distrib_left)
    have ih: "highlighted b rest =
       (if m + 1 \<le> ?k \<and> ?li * ?k < dmheight st then [?hl] else [])" for b
      using less.hyps [OF dec _ rest] less.prems(1) by simp
    show ?thesis
    proof (cases "?k = m")
      case True
      with ls ih [of "to_float (1 / 2)"] \<open>?li * m < dmheight st\<close> show ?thesis by simp
    next
      case False
      then have "m + 1 \<le> ?k \<longleftrightarrow> m \<le> ?k" by auto
      with False ls ih [of "to_float (1 / 5)"] show ?thesis by (simp add: alpha_distinct)
    qed
  qed
qed

text \<open>
  \<^verbatim>\<open>draw\<close> has a defined result on a constructed plotter with a positive label
  interval, as long as its loop counters stay within the range of \<^verbatim>\<open>int\<close>.
\<close>

lemma sdiv_any_in_int:
  assumes "in_int a" "0 < b"
  shows "in_int (a sdiv b)"
proof (cases "0 \<le> a")
  case True
  then show ?thesis using assms by (intro sdiv_in_int) (simp_all add: in_int_def)
next
  case False
  then have "0 \<le> (- a) div b" using assms(2) by (simp add: pos_imp_zdiv_nonneg_iff)
  moreover have "(- a) div b \<le> - a" using zdiv_mono2 [of "- a" 1 b] False assms(2) by simp
  moreover have "a sdiv b = - ((- a) div b)"
    using False assms(2) by (simp add: signed_divide_int_def sgn_if)
  ultimately show ?thesis using assms(1) by (simp add: in_int_def INT_MIN_def INT_MAX_def)
qed

lemma bars_defined:
  assumes "plotter_ok st" "index st + dmwidth st \<le> INT_MAX"
  shows "0 \<le> i \<Longrightarrow> \<exists>bs. bars st pos i = Inr bs"
proof (induction "nat (index st + dmwidth st - i)" arbitrary: i rule: less_induct)
  case less
  have w: "0 < dmwidth st" "int (length (points st)) = dmwidth st" "0 \<le> index st"
    using assms(1) by (simp_all add: plotter_ok_def)
  have b: "int_add (index st) (dmwidth st) = Inr (index st + dmwidth st)"
    using w assms(2) by (simp add: int_add_def in_int_def INT_MIN_def INT_MAX_def)
  show ?case
  proof (cases "i < index st + dmwidth st")
    case False
    then show ?thesis using b by (subst bars.simps) simp
  next
    case True
    have r: "int_rem i (dmwidth st) = Inr (i mod dmwidth st)"
      using w less.prems True assms(2) sdiv_in_int [of i "dmwidth st"]
      by (simp add: int_rem_Inr_iff smod_nonneg)
    have l: "load (points st) (i mod dmwidth st) = Inr (points st ! nat (i mod dmwidth st))"
      using w by (simp add: load_def)
    have a: "int_add i 1 = Inr (i + 1)"
      using less.prems True assms(2) by (simp add: int_add_def in_int_def INT_MIN_def INT_MAX_def)
    obtain rest where "bars st pos (i + 1) = Inr rest"
      using less.hyps [of "i + 1"] less.prems True by auto
    then show ?thesis using b r l a True by (subst bars.simps) simp
  qed
qed

lemma grid_defined:
  assumes "dmheight st + 16 \<le> INT_MAX"
  shows "0 \<le> y \<Longrightarrow> \<exists>gs. grid st pos y = Inr gs"
proof (induction "nat (dmheight st - y)" arbitrary: y rule: less_induct)
  case less
  show ?case
  proof (cases "y < dmheight st")
    case False
    then show ?thesis by (subst grid.simps) simp
  next
    case True
    have a: "int_add y 16 = Inr (y + 16)"
      using less.prems True assms by (simp add: int_add_def in_int_def INT_MIN_def INT_MAX_def)
    obtain rest where "grid st pos (y + 16) = Inr rest"
      using less.hyps [of "y + 16"] less.prems True by auto
    then show ?thesis using a True by (subst grid.simps) simp
  qed
qed

lemma labels_defined:
  assumes "0 < labelsInterval st" "dmheight st + labelsInterval st \<le> INT_MAX" "in_int cp"
  shows "0 \<le> y \<Longrightarrow> \<exists>ls. labels st pos cp y = Inr ls"
proof (induction "nat (dmheight st - y)" arbitrary: y rule: less_induct)
  case less
  show ?case
  proof (cases "y < dmheight st")
    case False
    then show ?thesis by (subst labels.simps) simp
  next
    case True
    have c: "int_div cp 16 = Inr (cp sdiv 16)"
      using sdiv_any_in_int [OF assms(3), of 16] by (simp add: int_div_def)
    have d: "int_div y (labelsInterval st) = Inr (y sdiv labelsInterval st)"
      using less.prems True assms(1,2) sdiv_in_int [of y "labelsInterval st"]
      by (simp add: int_div_def)
    have a: "int_add y (labelsInterval st) = Inr (y + labelsInterval st)"
      using less.prems True assms(1,2)
      by (simp add: int_add_def in_int_def INT_MIN_def INT_MAX_def)
    obtain rest where "labels st pos cp (y + labelsInterval st) = Inr rest"
      using less.hyps [of "y + labelsInterval st"] less.prems True assms(1) by auto
    then show ?thesis using c d a True by (subst labels.simps) simp
  qed
qed

lemma draw_defined:
  assumes "plotter_ok st" "index st + dmwidth st \<le> INT_MAX"
    and "dmheight st + 16 \<le> INT_MAX"
    and "0 < labelsInterval st" "dmheight st + labelsInterval st \<le> INT_MAX"
    and "in_int (points st ! nat (index st smod dmwidth st))"
  shows "\<exists>cmds. draw st pos = Inr (cmds, st)"
proof -
  have w: "0 < dmwidth st" "int (length (points st)) = dmwidth st" "0 \<le> index st"
    using assms(1) by (simp_all add: plotter_ok_def)
  have a: "int_add (index st) 1 = Inr (index st + 1)"
    using w assms(2) by (simp add: int_add_def in_int_def INT_MIN_def INT_MAX_def)
  obtain bs where bs: "bars st pos (index st + 1) = Inr bs"
    using bars_defined [OF assms(1,2), where i = "index st + 1" and pos = pos] w by auto
  obtain gs where gs: "grid st pos 0 = Inr gs"
    using grid_defined [OF assms(3), where y = 0 and pos = pos] by auto
  have r: "int_rem (index st) (dmwidth st) = Inr (index st smod dmwidth st)"
    using w assms(2) sdiv_in_int [of "index st" "dmwidth st"] by (simp add: int_rem_Inr_iff)
  have l: "load (points st) (index st smod dmwidth st)
           = Inr (points st ! nat (index st smod dmwidth st))"
    using w by (simp add: load_def smod_nonneg)
  obtain ls where ls: "labels st pos (points st ! nat (index st smod dmwidth st)) 0 = Inr ls"
    using labels_defined [OF assms(4,5,6), where y = 0 and pos = pos] by auto
  show ?thesis using a bs gs r l ls by (simp add: draw_def and_then_def)
qed

lemmas draw_eval = draw_def bars.simps grid.simps labels.simps

lemma narrow_act: "act narrow_before (to_float 40) = Inr narrow"
  by (simp add: narrow_before_def narrow_def act_def ub_defs float_defs)

lemma narrow_draw: "draw narrow origin = Inr (narrow_drawn, narrow)"
  by (simp add: narrow_def narrow_drawn_def origin_def draw_eval ub_defs float_defs)

text \<open>
  C2 (as stated, refuted): the claim has the magnitude just written drawn at the
  rightmost column. On the plotter three samples wide, \<^verbatim>\<open>act(40)\<close> writes 40
  at the cursor slot 1; \<^verbatim>\<open>draw\<close> then plots two bars, of the heights 30 and
  10 (slots 2 and 0, from \<open>y = 10\<close> and \<open>y = 30\<close> down to the base line at
  40), and none of the height 40.
\<close>

theorem draw_omits_newest_sample:
  "act narrow_before (to_float 40) = Inr narrow
   \<and> points narrow ! nat (index narrow smod dmwidth narrow) = 40
   \<and> drawn_bars narrow origin
     = Inr [Line (to_float 1) (to_float 10) (to_float 1) (to_float 40)
              (to_float 1) (to_float 1) (to_float 1) (to_float (1 / 5)),
            Line (to_float 2) (to_float 30) (to_float 2) (to_float 40)
              (to_float 1) (to_float 1) (to_float 1) (to_float (1 / 5))]"
  by (simp add: narrow_before_def narrow_def origin_def act_def drawn_bars_def plotted_bars_def
        draw_eval ub_defs float_defs)

text \<open>
  C2 (as amended): the loop runs from \<^verbatim>\<open>index+1\<close> to \<^verbatim>\<open>index+dmwidth-1\<close>,
  which leaves the cursor slot out. After a sample and a render on a plotter
  wider than one sample, the bars plotted are those of the counter values
  \<open>i = index+1, \<dots>, index+dmwidth-1\<close>, in this order, each for the slot
  \<open>i % dmwidth\<close> at the column \<^verbatim>\<open>pos.x + i - index\<close> (computed in
  \<^verbatim>\<open>float\<close>); none of these slots is the cursor slot, which holds the
  magnitude just written; and the last bar is the bar of the slot the cursor
  pointed at before the sample, whose magnitude the sample has not changed: the
  newest but one.
\<close>

theorem draw_plots_all_but_newest:
  assumes "plotter_ok st" "1 < dmwidth st" "act st delta = Inr st'"
    and "draw st' pos = Inr (cmds, st'')"
  shows "plotted_bars cmds
           = map (\<lambda>i. bar_line st' pos i (nat (i smod dmwidth st')))
               [index st' + 1 .. index st' + dmwidth st' - 1]
       \<and> (\<forall>i\<in>set [index st' + 1 .. index st' + dmwidth st' - 1].
             nat (i smod dmwidth st') \<noteq> nat (index st' smod dmwidth st'))
       \<and> points st' ! nat (index st' smod dmwidth st')
           = min (float_trunc (fval (fmul delta (multiplier st)))) (dmheight st)
       \<and> last (plotted_bars cmds)
           = bar_line st' pos (index st' + dmwidth st' - 1) (nat (index st smod dmwidth st))
       \<and> points st' ! nat (index st smod dmwidth st) = points st ! nat (index st smod dmwidth st)"
proof -
  have ok': "plotter_ok st'" by (rule act_ok [OF assms(1,3)])
  have w: "0 < dmwidth st" "int (length (points st)) = dmwidth st" "0 \<le> index st"
    using assms(1) by (simp_all add: plotter_ok_def)
  note r = act_result [OF assms(1,3)]
  have idx: "index st' = index st + 1" and wd: "dmwidth st' = dmwidth st"
    and pts: "points st' = (points st)[nat ((index st + 1) mod dmwidth st)
                := min (float_trunc (fval (fmul delta (multiplier st)))) (dmheight st)]"
    using assms(2) by (subst r, simp)+
  let ?is = "[index st' + 1 .. index st' + dmwidth st' - 1]"
  have bars: "plotted_bars cmds = map (\<lambda>i. bar_line st' pos i (nat (i smod dmwidth st'))) ?is"
    by (rule draw_bars [OF ok' assms(4)])
  have away: "nat (i smod dmwidth st') \<noteq> nat (index st' smod dmwidth st')" if "i \<in> set ?is" for i
  proof -
    from that have i: "index st' < i" "i < index st' + dmwidth st" by (simp_all add: wd)
    have "(i - (i - index st')) mod dmwidth st \<noteq> i mod dmwidth st"
      using i by (intro slot_distinct) simp_all
    then have "index st' mod dmwidth st \<noteq> i mod dmwidth st" by simp
    moreover have "0 \<le> i" "0 \<le> index st'" using i w idx by simp_all
    ultimately show ?thesis using w by (simp add: smod_nonneg wd nat_eq_iff)
  qed
  have split: "?is = [index st' + 1 .. index st' + dmwidth st' - 1 - 1]
                     @ [index st' + dmwidth st' - 1]"
    using assms(2) by (intro upto_rec2) (simp add: wd)
  have lastslot: "nat ((index st' + dmwidth st' - 1) smod dmwidth st') = nat (index st smod dmwidth st)"
    using w by (simp add: idx wd smod_nonneg)
  have "last (plotted_bars cmds)
        = bar_line st' pos (index st' + dmwidth st' - 1) (nat (index st smod dmwidth st))"
    unfolding bars by (subst split) (simp add: lastslot)
  moreover have ne: "nat ((index st + 1) mod dmwidth st) \<noteq> nat (index st mod dmwidth st)"
    using slot_distinct [of 1 "dmwidth st" "index st + 1"] assms(2) w
    by (simp add: nat_eq_iff)
  then have "points st' ! nat (index st smod dmwidth st) = points st ! nat (index st smod dmwidth st)"
    using w by (simp add: pts smod_nonneg)
  moreover note bars act_slot [OF assms(1,3)]
  ultimately show ?thesis using away by blast
qed

theorem draw_plots_all_but_newest_witness:
  "plotter_ok narrow_before \<and> 1 < dmwidth narrow_before
   \<and> act narrow_before (to_float 40) = Inr narrow \<and> draw narrow origin = Inr (narrow_drawn, narrow)
   \<and> plotted_bars narrow_drawn = [bar_line narrow origin 5 2, bar_line narrow origin 6 0]
   \<and> points narrow ! 1 = 40
   \<and> last (plotted_bars narrow_drawn) = bar_line narrow origin 6 0
   \<and> points narrow ! 0 = points narrow_before ! 0"
proof -
  have h: "plotter_ok narrow_before" "1 < dmwidth narrow_before"
    by (simp_all add: narrow_before_def plotter_ok_def)
  have i: "index narrow = 4" "dmwidth narrow = 3" "index narrow_before = 3"
    "dmwidth narrow_before = 3"
    by (simp_all add: narrow_def narrow_before_def)
  from draw_plots_all_but_newest [OF h narrow_act narrow_draw]
  have "plotted_bars narrow_drawn = [bar_line narrow origin 5 2, bar_line narrow origin 6 0]"
    and "last (plotted_bars narrow_drawn) = bar_line narrow origin 6 0"
    and "points narrow ! 0 = points narrow_before ! 0"
    by (simp_all add: i signed_modulo_int_def upto_rec1 numeral_2_eq_2)
  then show ?thesis
    using h narrow_act narrow_draw by (simp add: narrow_def)
qed

text \<open>
  C7 (as stated, refuted): the claim has exactly one label row highlighted. On
  the plotter 32 pixels high, \<^verbatim>\<open>act(50)\<close> stores the clamped magnitude 32;
  \<^verbatim>\<open>32/16\<close> is 2 and the label rows are \<^verbatim>\<open>y = 0\<close> and \<^verbatim>\<open>y = 16\<close>, the
  rows 0 and 1: \<^verbatim>\<open>draw\<close> highlights no label.
\<close>

theorem draw_highlights_nothing_when_saturated:
  "act (saturated\<lparr>index := 3, points := [10, 20, 30]\<rparr>) (to_float 50) = Inr saturated
   \<and> drawn_highlights saturated origin = Inr []"
  by (simp add: saturated_def origin_def act_def drawn_highlights_def draw_eval ub_defs float_defs)

text \<open>
  C7 (as amended): with the label interval 16, the band height that
  \<^verbatim>\<open>current_point/16\<close> assumes, a label row \<open>y\<close> is highlighted when
  \<^verbatim>\<open>current_point/16 == y/16\<close>. A defined \<^verbatim>\<open>draw\<close> highlights the one row
  \<^verbatim>\<open>y = 16 * (current_point/16)\<close> when that row is drawn (the truncated
  quotient is not negative and the row is below \<open>dmheight\<close>), labelled with
  the \<^verbatim>\<open>float\<close> quotient of the current magnitude by the scale factor, and no
  row otherwise. For a magnitude that is not negative the row is the greatest
  label row not above it, not the nearest one.
\<close>

theorem draw_highlights_band_row:
  assumes "plotter_ok st" "labelsInterval st = 16" "draw st pos = Inr (cmds, st')"
  shows "highlighted a cmds =
     (if 0 \<le> points st ! nat (index st smod dmwidth st) sdiv 16
         \<and> 16 * (points st ! nat (index st smod dmwidth st) sdiv 16) < dmheight st
      then [FontDraw (To_wstring (fdiv (of_int_float (points st ! nat (index st smod dmwidth st)))
                                       (multiplier st)) 3)
              (fadd (fadd (fst pos) (of_int_float (dmwidth st))) (of_int_float 2))
              (fsub (fsub (fadd (snd pos) (of_int_float (dmheight st)))
                          (of_int_float (16 * (points st ! nat (index st smod dmwidth st) sdiv 16))))
                    (of_int_float 16))]
      else [])"
proof -
  let ?cp = "points st ! nat (index st smod dmwidth st)"
  from draw_parts [OF assms(3)] obtain bs gs ls where
    bs: "bars st pos (index st + 1) = Inr bs" and gs: "grid st pos 0 = Inr gs" and
    ls: "labels st pos ?cp 0 = Inr ls" and
    cmds: "cmds = [Texture_null, LineWidth 1] @ bs
            @ [SetColor (of_int_float 1) (of_int_float 1) (of_int_float 1) (to_float (1 / 5)),
               LineRect (fst pos) (snd pos) (dmwidth st) (dmheight st)]
            @ gs @ ls"
    by blast
  have "0 \<le> index st + 1" using assms(1) by (simp add: plotter_ok_def)
  from bars_result [OF assms(1) this bs] have b: "list_all is_line bs"
    by (simp add: bar_lines)
  have g: "list_all is_line gs" by (rule grid_lines [OF gs])
  have li: "0 < labelsInterval st" using assms(2) by simp
  have "highlighted a cmds = highlighted (to_float (1 / 5)) ls"
    by (simp add: cmds highlighted_lines [OF b] highlighted_lines [OF g])
  also have "\<dots> = (if 0 \<le> ?cp sdiv 16 \<and> 16 * (?cp sdiv 16) < dmheight st
      then [FontDraw (To_wstring (fdiv (of_int_float ?cp) (multiplier st)) 3)
              (fadd (fadd (fst pos) (of_int_float (dmwidth st))) (of_int_float 2))
              (fsub (fsub (fadd (snd pos) (of_int_float (dmheight st)))
                          (of_int_float (16 * (?cp sdiv 16))))
                    (of_int_float 16))]
      else [])"
    using labels_highlight [OF li, of 0 pos ?cp ls "to_float (1 / 5)"] ls
    by (simp add: assms(2))
  finally show ?thesis .
qed

theorem draw_highlights_band_row_witness:
  "plotter_ok narrow \<and> labelsInterval narrow = 16
   \<and> draw narrow origin = Inr (narrow_drawn, narrow)
   \<and> highlighted (to_float 1) narrow_drawn
     = [FontDraw (To_wstring (to_float 40) 3) (to_float 5) (to_float (- 8))]"
proof -
  have h: "plotter_ok narrow" "labelsInterval narrow = 16"
    by (simp_all add: narrow_def plotter_ok_def)
  from draw_highlights_band_row [OF h narrow_draw, of "to_float 1"]
  have "highlighted (to_float 1) narrow_drawn
        = [FontDraw (To_wstring (to_float 40) 3) (to_float 5) (to_float (- 8))]"
    by (simp add: narrow_def origin_def ub_defs float_defs)
  then show ?thesis using h narrow_draw by simp
qed

text \<open>
  C8: \<^verbatim>\<open>draw\<close> assigns to no member. A call that is defined leaves the plotter
  as it found it, and any number of calls in a row, at the same position, make
  the same calls on the batch and the font each time.
\<close>

theorem draw_leaves_plotter_unchanged:
  assumes "draw st pos = Inr (cmds, st')"
  shows "st' = st \<and> draw_times n st pos = Inr (replicate n cmds, st)"
  using draw_keeps [OF assms] draw_times_same [OF assms] by simp

theorem draw_leaves_plotter_unchanged_witness:
  "draw narrow origin = Inr (narrow_drawn, narrow)
   \<and> draw_times 3 narrow origin = Inr ([narrow_drawn, narrow_drawn, narrow_drawn], narrow)"
proof -
  from draw_leaves_plotter_unchanged [OF narrow_draw, of 3]
  have "draw_times 3 narrow origin = Inr (replicate 3 narrow_drawn, narrow)" by simp
  then show ?thesis using narrow_draw by (simp add: numeral_3_eq_3)
qed

section \<open>Saving the world preview\<close>

lemma world_of_calls: "world_of (foldl call x ts) = world_of x"
proof (induction ts arbitrary: x)
  case Nil
  show ?case by simp
next
  case (Cons t ts)
  have "world_of (call x t) = world_of x" by (cases x; cases t) simp_all
  with Cons show ?case by simp
qed

lemma effect_Thrown: "effect f x = Thrown e w' \<Longrightarrow> x = Thrown e w'"
  by (cases x) simp_all

lemma try_block_thrown_world:
  assumes "try_block c w = Thrown e w'"
  shows "w' = w\<lparr>logged := logged w @ [Info ''saving world preview'']\<rparr>"
proof -
  let ?body = "foldl call (Normal (w\<lparr>logged := logged w @ [Info ''saving world preview'']\<rparr>))
          [getPaths c, getPlayer c, getSettings c, worldPreviewSize_get c, new_Viewport c,
           new_GfxContext c, worldRenderer_draw c, toImage c, flipY c, resolve c,
           imageio_write c]"
  from assms have "?body = Thrown e w'"
    unfolding try_block_def by (rule effect_Thrown)
  then have "world_of ?body = w'" by simp
  then show ?thesis by (simp only: world_of_calls world_of.simps)
qed

text \<open>
  C9: when a call in the \<^verbatim>\<open>try\<close> block throws an exception derived from
  \<^verbatim>\<open>std::exception\<close>, whichever call it is, \<^verbatim>\<open>saveWorldPreview\<close> returns
  normally, with the text of the exception logged as an error after the
  announcement; and no outcome of \<^verbatim>\<open>saveWorldPreview\<close> is such an exception
  in flight.
\<close>

theorem saveWorldPreview_catches_std_exception:
  assumes "try_block c w = Thrown (Std_exception what) w'"
  shows "saveWorldPreview c w
         = Normal (w\<lparr>logged := logged w @ [Info ''saving world preview'', Error what]\<rparr>)
       \<and> saveWorldPreview c w \<noteq> Thrown (Std_exception e) u"
proof
  from try_block_thrown_world [OF assms] assms
  show "saveWorldPreview c w
        = Normal (w\<lparr>logged := logged w @ [Info ''saving world preview'', Error what]\<rparr>)"
    by (simp add: saveWorldPreview_def)
  then show "saveWorldPreview c w \<noteq> Thrown (Std_exception e) u" by simp
qed

theorem saveWorldPreview_catches_std_exception_witness:
  "try_block (quiet\<lparr>imageio_write := Some (Std_exception ''disk full'')\<rparr>)
     \<lparr>logged = [], preview_png = False\<rparr>
   = Thrown (Std_exception ''disk full'')
       \<lparr>logged = [Info ''saving world preview''], preview_png = False\<rparr>
   \<and> saveWorldPreview (quiet\<lparr>imageio_write := Some (Std_exception ''disk full'')\<rparr>)
       \<lparr>logged = [], preview_png = False\<rparr>
     = Normal \<lparr>logged = [Info ''saving world preview'', Error ''disk full''],
               preview_png = False\<rparr>"
proof -
  have h: "try_block (quiet\<lparr>imageio_write := Some (Std_exception ''disk full'')\<rparr>)
     \<lparr>logged = [], preview_png = False\<rparr>
   = Thrown (Std_exception ''disk full'')
       \<lparr>logged = [Info ''saving world preview''], preview_png = False\<rparr>"
    by (simp add: try_block_def quiet_def)
  from saveWorldPreview_catches_std_exception [OF h] h show ?thesis by simp
qed

end
